theory Spec2Isabelle
  imports Main "HOL-Library.Word" "HOL-Library.List_Lexorder" "HOL-Library.Char_ord"
    "HOL-Library.Multiset"
begin

unbundle bit_operations_syntax

section \<open>Routio message description compiler: type identifiers\<close>

text \<open>
  The development follows the generator sources: \<^verbatim>\<open>codegen.cpp\<close> (type registry and
  emitters), \<^verbatim>\<open>parser.cpp\<close> (lexer and parser helpers) and the compiler driver.
  A \<^verbatim>\<open>std::string\<close> is a \<^typ>\<open>string\<close>, a byte is an \<^typ>\<open>8 word\<close>.
\<close>

subsection \<open>Stream formatting used by the hash\<close>

text \<open>
  \<^verbatim>\<open>oss << std::hex << std::setfill('0'); oss << std::setw(2) << (int)hash[i];\<close>
  prints a non-negative int in lowercase hexadecimal without leading zeros and pads it on
  the left with the fill character up to the field width.
\<close>

definition hex_digit :: "nat \<Rightarrow> char" where
  "hex_digit d = ''0123456789abcdef'' ! (d mod 16)"

fun hex_of_nat :: "nat \<Rightarrow> string" where
  "hex_of_nat n = (if n < 16 then [hex_digit n] else hex_of_nat (n div 16) @ [hex_digit (n mod 16)])"

declare hex_of_nat.simps [simp del]

definition setw_fill :: "nat \<Rightarrow> char \<Rightarrow> string \<Rightarrow> string" where
  "setw_fill w c s = replicate (w - length s) c @ s"

subsection \<open>\<^verbatim>\<open>TypeRegistry::computeHash\<close>\<close>

text \<open>
  \<^verbatim>\<open>unsigned char hash[16] = {0};
  for (size_t i = 0; i < content.size(); ++i) hash[i % 16] ^= content[i];\<close>
  The assignment converts back to \<^verbatim>\<open>unsigned char\<close>, so only the low eight bits of the
  character take part, whatever the signedness of \<^verbatim>\<open>char\<close>.
\<close>

fun hash_loop :: "string \<Rightarrow> nat \<Rightarrow> 8 word list \<Rightarrow> 8 word list" where
  "hash_loop [] i h = h"
| "hash_loop (c # cs) i h = hash_loop cs (Suc i) (h[i mod 16 := (h ! (i mod 16)) XOR of_char c])"

definition computeHash :: "string \<Rightarrow> string" where
  "computeHash content =
     concat (map (\<lambda>b. setw_fill 2 (CHR ''0'') (hex_of_nat (unat b)))
                 (hash_loop content 0 (replicate 16 0)))"

text \<open>
  The XOR fold as the specification words it: accumulator position \<open>j\<close> holds the XOR of
  the bytes of the input whose index is congruent to \<open>j\<close> modulo 16, and a byte is rendered
  as two lowercase hexadecimal characters.
\<close>

definition xor_fold_spec :: "string \<Rightarrow> nat \<Rightarrow> 8 word" where
  "xor_fold_spec s j =
     fold (\<lambda>x a. a XOR x) (map (\<lambda>i. of_char (s ! i)) (filter (\<lambda>i. i mod 16 = j) [0..<length s])) 0"

definition hex2 :: "8 word \<Rightarrow> string" where
  "hex2 b = [hex_digit (unat b div 16), hex_digit (unat b mod 16)]"

section \<open>The description AST (\<^verbatim>\<open>parser.h\<close>)\<close>

text \<open>
  \<^verbatim>\<open>Value = std::variant<double, std::string, bool>\<close>. The type of doubles is left as
  the parameter \<open>'d\<close>: nothing below computes with one.
\<close>

datatype 'd Value = VDouble 'd | VString string | VBool bool

record 'd Properties =
  prop_args :: "'d Value list"
  prop_kwargs :: "(string \<times> 'd Value) list"

datatype FieldArray = FieldArray (array_length: "nat option")

record 'd Field =
  Field_type :: string
  Field_array :: "FieldArray option"
  Field_name :: string
  Field_properties :: "'d Properties option"
  Field_default_value :: "'d Value option"

record Enumerate =
  Enumerate_name :: string
  Enumerate_values :: "string list"

record 'd Include =
  Include_name :: string
  Include_properties :: "'d Properties option"

record ExternalLanguage =
  language :: string
  container :: string
  el_sources :: "string list"
  deflt :: "string option"
  el_read :: "string option"
  el_write :: "string option"

record External =
  External_name :: string
  languages :: "ExternalLanguage list"

record 'd Structure =
  Structure_name :: string
  Structure_fields :: "'d Field list"

record 'd Message =
  Message_name :: string
  Message_fields :: "'d Field list"

datatype 'd Decl =
    DEnumerate Enumerate
  | DInclude "'d Include"
  | DImport string
  | DExternal External
  | DStructure "'d Structure"
  | DMessage "'d Message"

record 'd Description =
  ns :: "string option"
  decls :: "'d Decl list"

section \<open>The type registry (\<^verbatim>\<open>codegen.cpp\<close>)\<close>

subsection \<open>\<^verbatim>\<open>std::map\<close>\<close>

text \<open>
  A \<^verbatim>\<open>std::map<std::string, V>\<close> is kept as the list of its entries in iteration order,
  that is in ascending key order (\<^verbatim>\<open>std::string\<close> compares bytes lexicographically, as
  the order on \<^typ>\<open>string\<close> does). \<open>map_put\<close> is \<^verbatim>\<open>m[k] = v\<close>, \<^const>\<open>map_of\<close> is
  \<^verbatim>\<open>find\<close>, and \<open>map_init\<close> is construction from an initializer list (a key that is
  already present is not overwritten).
\<close>

fun map_put :: "'k::linorder \<Rightarrow> 'v \<Rightarrow> ('k \<times> 'v) list \<Rightarrow> ('k \<times> 'v) list" where
  "map_put k v [] = [(k, v)]"
| "map_put k v ((k', v') # m) =
     (if k < k' then (k, v) # (k', v') # m
      else if k = k' then (k, v) # m
      else (k', v') # map_put k v m)"

definition map_init :: "('k::linorder \<times> 'v) list \<Rightarrow> ('k \<times> 'v) list" where
  "map_init xs = foldl (\<lambda>m (k, v). case map_of m k of None \<Rightarrow> map_put k v m | Some _ \<Rightarrow> m) [] xs"

subsection \<open>Type metadata\<close>

record ContainerMapping =
  containers :: "(string \<times> string) list"
  defaults :: "(string \<times> string) list"
  readers :: "(string \<times> string) list"
  writers :: "(string \<times> string) list"

record TypeMetadata =
  tm_name :: string
  tm_hash :: string
  tm_containers :: ContainerMapping
  tm_sources :: "string list"
  is_builtin :: bool
  is_external :: bool

definition ContainerMapping_new :: ContainerMapping where
  "ContainerMapping_new = \<lparr>containers = [], defaults = [], readers = [], writers = []\<rparr>"

definition TypeMetadata_new :: TypeMetadata where
  "TypeMetadata_new = \<lparr>tm_name = [], tm_hash = [], tm_containers = ContainerMapping_new,
     tm_sources = [], is_builtin = False, is_external = False\<rparr>"

definition getContainer :: "TypeMetadata \<Rightarrow> string \<Rightarrow> string" where
  "getContainer meta lang =
     (case map_of (containers (tm_containers meta)) lang of Some c \<Rightarrow> c | None \<Rightarrow> tm_name meta)"

definition getDefault :: "TypeMetadata \<Rightarrow> string \<Rightarrow> string" where
  "getDefault meta lang =
     (case map_of (defaults (tm_containers meta)) lang of Some c \<Rightarrow> c | None \<Rightarrow> [])"

definition getReader :: "TypeMetadata \<Rightarrow> string \<Rightarrow> string" where
  "getReader meta lang =
     (case map_of (readers (tm_containers meta)) lang of Some c \<Rightarrow> c | None \<Rightarrow> [])"

definition getWriter :: "TypeMetadata \<Rightarrow> string \<Rightarrow> string" where
  "getWriter meta lang =
     (case map_of (writers (tm_containers meta)) lang of Some c \<Rightarrow> c | None \<Rightarrow> [])"

subsection \<open>\<^verbatim>\<open>TypeRegistry\<close>\<close>

record 'd TypeRegistry =
  types :: "(string \<times> TypeMetadata) list"
  enums :: "(string \<times> (string \<times> int) list) list"
  structs :: "(string \<times> (string \<times> 'd Field) list) list"
  messages :: "string list"

definition registerType :: "'d TypeRegistry \<Rightarrow> TypeMetadata \<Rightarrow> 'd TypeRegistry" where
  "registerType reg metadata = reg\<lparr>types := map_put (tm_name metadata) metadata (types reg)\<rparr>"

definition registerEnum :: "'d TypeRegistry \<Rightarrow> string \<Rightarrow> (string \<times> int) list \<Rightarrow> 'd TypeRegistry" where
  "registerEnum reg name values =
     registerType (reg\<lparr>enums := map_put name values (enums reg)\<rparr>)
       (TypeMetadata_new\<lparr>tm_name := name,
          tm_hash := fold (\<lambda>(val, idx) h. computeHash (h @ val)) values (computeHash name),
          is_builtin := False\<rparr>)"

definition registerStruct ::
  "'d TypeRegistry \<Rightarrow> string \<Rightarrow> (string \<times> 'd Field) list \<Rightarrow> 'd TypeRegistry" where
  "registerStruct reg name flds =
     registerType (reg\<lparr>structs := map_put name flds (structs reg)\<rparr>)
       (TypeMetadata_new\<lparr>tm_name := name, is_builtin := False,
          tm_hash := computeHash
            (fold (\<lambda>(fname, field) content. content @ Field_type field @ fname) flds name)\<rparr>)"

definition registerMessage ::
  "'d TypeRegistry \<Rightarrow> string \<Rightarrow> (string \<times> 'd Field) list \<Rightarrow> 'd TypeRegistry" where
  "registerMessage reg name flds =
     registerStruct (reg\<lparr>messages := messages reg @ [name]\<rparr>) name flds"

definition getType :: "'d TypeRegistry \<Rightarrow> string \<Rightarrow> TypeMetadata option" where
  "getType reg name = map_of (types reg) name"

definition getHash :: "'d TypeRegistry \<Rightarrow> string \<Rightarrow> string" where
  "getHash reg name = (case getType reg name of Some meta \<Rightarrow> tm_hash meta | None \<Rightarrow> computeHash name)"

definition createBuiltinType ::
  "string \<Rightarrow> (string \<times> string) list \<Rightarrow> (string \<times> string) list \<Rightarrow> TypeMetadata" where
  "createBuiltinType name cs ds =
     TypeMetadata_new\<lparr>tm_name := name, is_builtin := True, tm_hash := computeHash name,
       tm_containers := ContainerMapping_new\<lparr>containers := map_init cs, defaults := map_init ds\<rparr>,
       tm_sources :=
         (if name = ''string'' then [''string'']
          else if name = ''array'' \<or> name = ''tensor'' then [''vector'', ''routio/array.h'', ''numpy'']
          else if name = ''timestamp'' then [''chrono'', ''datetime'']
          else [])\<rparr>"

definition builtin_scalars :: "(string \<times> (string \<times> string) list \<times> (string \<times> string) list) list" where
  "builtin_scalars =
    [(''int8'', [(''cpp'', ''int8_t''), (''python'', ''int'')], [(''cpp'', ''0''), (''python'', ''0'')]),
     (''int16'', [(''cpp'', ''int16_t''), (''python'', ''int'')], [(''cpp'', ''0''), (''python'', ''0'')]),
     (''int32'', [(''cpp'', ''int32_t''), (''python'', ''int'')], [(''cpp'', ''0''), (''python'', ''0'')]),
     (''int64'', [(''cpp'', ''int64_t''), (''python'', ''routio.long'')], [(''cpp'', ''0''), (''python'', ''0'')]),
     (''uint8'', [(''cpp'', ''uint8_t''), (''python'', ''int'')], [(''cpp'', ''0''), (''python'', ''0'')]),
     (''uint16'', [(''cpp'', ''uint16_t''), (''python'', ''int'')], [(''cpp'', ''0''), (''python'', ''0'')]),
     (''uint32'', [(''cpp'', ''uint32_t''), (''python'', ''int'')], [(''cpp'', ''0''), (''python'', ''0'')]),
     (''uint64'', [(''cpp'', ''uint64_t''), (''python'', ''int'')], [(''cpp'', ''0''), (''python'', ''0'')]),
     (''float32'', [(''cpp'', ''float''), (''python'', ''float'')], [(''cpp'', ''0.0f''), (''python'', ''0.0'')]),
     (''float64'', [(''cpp'', ''double''), (''python'', ''routio.double'')], [(''cpp'', ''0.0''), (''python'', ''0.0'')]),
     (''bool'', [(''cpp'', ''bool''), (''python'', ''bool'')], [(''cpp'', ''false''), (''python'', ''False'')]),
     (''string'', [(''cpp'', ''std::string''), (''python'', ''str'')],
        [(''cpp'', [CHR 0x22, CHR 0x22]), (''python'', [CHR 0x22, CHR 0x22])]),
     (''int'', [(''cpp'', ''int32_t''), (''python'', ''int'')], [(''cpp'', ''0''), (''python'', ''0'')]),
     (''float'', [(''cpp'', ''float''), (''python'', ''float'')], [(''cpp'', ''0.0f''), (''python'', ''0.0'')]),
     (''double'', [(''cpp'', ''double''), (''python'', ''routio.double'')], [(''cpp'', ''0.0''), (''python'', ''0.0'')]),
     (''char'', [(''cpp'', ''char''), (''python'', ''routio.char'')],
        [(''cpp'', [CHR 0x27, CHR 0x5C, CHR ''0'', CHR 0x27]), (''python'', [CHR 0x27, CHR 0x5C, CHR ''0'', CHR 0x27])])]"

definition builtin_timestamp :: TypeMetadata where
  "builtin_timestamp = TypeMetadata_new\<lparr>tm_name := ''timestamp'', is_builtin := True,
     tm_hash := computeHash ''timestamp'',
     tm_containers := ContainerMapping_new\<lparr>containers :=
       map_init [(''cpp'', ''std::chrono::system_clock::time_point''), (''python'', ''datetime.datetime'')]\<rparr>,
     tm_sources := [''chrono'', ''datetime'']\<rparr>"

definition builtin_header :: TypeMetadata where
  "builtin_header = TypeMetadata_new\<lparr>tm_name := ''header'', is_builtin := True,
     tm_hash := computeHash ''header'',
     tm_containers := ContainerMapping_new\<lparr>
       containers := map_init [(''cpp'', ''routio::Header''), (''python'', ''routio.Header'')],
       defaults := map_init [(''cpp'', ''routio::Header()''), (''python'', ''routio.Header()'')]\<rparr>,
     tm_sources := [''routio/datatypes.h'']\<rparr>"

definition builtin_array :: TypeMetadata where
  "builtin_array = TypeMetadata_new\<lparr>tm_name := ''array'', is_builtin := True,
     tm_hash := computeHash ''array'',
     tm_containers := ContainerMapping_new\<lparr>
       containers := map_init [(''cpp'', ''routio::Array''), (''python'', ''numpy.ndarray'')],
       defaults := map_init [(''cpp'', ''routio::Array()''), (''python'', ''numpy.zeros((0,))'')]\<rparr>,
     tm_sources := [''routio/array.h'', ''numpy'']\<rparr>"

definition builtin_tensor :: TypeMetadata where
  "builtin_tensor = TypeMetadata_new\<lparr>tm_name := ''tensor'', is_builtin := True,
     tm_hash := computeHash ''tensor'',
     tm_containers := ContainerMapping_new\<lparr>
       containers := map_init [(''cpp'', ''routio::Tensor''), (''python'', ''numpy.ndarray'')],
       defaults := map_init [(''cpp'', ''routio::Tensor()''), (''python'', ''numpy.zeros((0,))'')]\<rparr>,
     tm_sources := [''routio/array.h'', ''numpy'']\<rparr>"

definition registerBuiltinTypes :: "'d TypeRegistry \<Rightarrow> 'd TypeRegistry" where
  "registerBuiltinTypes reg =
     foldl registerType
       (foldl (\<lambda>r (name, cs, ds). registerType r (createBuiltinType name cs ds)) reg builtin_scalars)
       [builtin_timestamp, builtin_header, builtin_array, builtin_tensor]"

definition TypeRegistry_new :: "'d TypeRegistry" where
  "TypeRegistry_new =
     registerBuiltinTypes \<lparr>types = [], enums = [], structs = [], messages = []\<rparr>"

subsection \<open>\<^verbatim>\<open>CppGenerator::buildRegistry_\<close> (the Python generator's copy is identical)\<close>

definition enum_values :: "string list \<Rightarrow> (string \<times> int) list" where
  "enum_values vals = fst (fold (\<lambda>val (m, idx). (map_put val idx m, idx + 1)) vals ([], 0))"

definition fields_map :: "'d Field list \<Rightarrow> (string \<times> 'd Field) list" where
  "fields_map fs = fold (\<lambda>f m. map_put (Field_name f) f m) fs []"

definition set_opt :: "string \<Rightarrow> string option \<Rightarrow> (string \<times> string) list \<Rightarrow> (string \<times> string) list" where
  "set_opt k v m = (case v of Some x \<Rightarrow> map_put k x m | None \<Rightarrow> m)"

definition external_lang :: "string \<Rightarrow> ExternalLanguage \<Rightarrow> TypeMetadata \<Rightarrow> TypeMetadata" where
  "external_lang key lang meta =
     meta\<lparr>tm_containers := (tm_containers meta)\<lparr>
         containers := map_put key (container lang) (containers (tm_containers meta)),
         defaults := set_opt key (deflt lang) (defaults (tm_containers meta)),
         readers := set_opt key (el_read lang) (readers (tm_containers meta)),
         writers := set_opt key (el_write lang) (writers (tm_containers meta))\<rparr>,
       tm_sources := tm_sources meta @ el_sources lang\<rparr>"

definition external_meta :: "External \<Rightarrow> TypeMetadata" where
  "external_meta d =
     fold (\<lambda>lang meta.
             if language lang = ''cpp'' \<or> language lang = ''c++'' then external_lang ''cpp'' lang meta
             else if language lang = ''python'' \<or> language lang = ''py'' then external_lang ''python'' lang meta
             else meta)
          (languages d) (TypeMetadata_new\<lparr>tm_name := External_name d\<rparr>)"

fun visit_decl :: "'d TypeRegistry \<Rightarrow> 'd Decl \<Rightarrow> 'd TypeRegistry" where
  "visit_decl reg (DEnumerate d) = registerEnum reg (Enumerate_name d) (enum_values (Enumerate_values d))"
| "visit_decl reg (DStructure d) = registerStruct reg (Structure_name d) (fields_map (Structure_fields d))"
| "visit_decl reg (DMessage d) = registerMessage reg (Message_name d) (fields_map (Message_fields d))"
| "visit_decl reg (DExternal d) = registerType reg (external_meta d)"
| "visit_decl reg (DInclude d) = reg"
| "visit_decl reg (DImport d) = reg"

definition buildRegistry :: "'d Description \<Rightarrow> 'd TypeRegistry" where
  "buildRegistry desc = foldl visit_decl (registerBuiltinTypes TypeRegistry_new) (decls desc)"

subsection \<open>Vocabulary for stating the claims\<close>

text \<open>The last field declared under the name \<open>k\<close>: the one \<^verbatim>\<open>fields[f.name] = f\<close> keeps.\<close>

definition last_named :: "'d Field list \<Rightarrow> string \<Rightarrow> 'd Field" where
  "last_named fs k = last (filter (\<lambda>f. Field_name f = k) fs)"

text \<open>The name a declaration registers a type under (includes and imports register none).\<close>

fun declared_name :: "'d Decl \<Rightarrow> string option" where
  "declared_name (DEnumerate d) = Some (Enumerate_name d)"
| "declared_name (DStructure d) = Some (Structure_name d)"
| "declared_name (DMessage d) = Some (Message_name d)"
| "declared_name (DExternal d) = Some (External_name d)"
| "declared_name (DInclude d) = None"
| "declared_name (DImport d) = None"

text \<open>
  The digest as the specification words it, with the fields in declaration order; once with
  each field rendered as the code renders it (type, then name) and once name first.
\<close>

definition decl_order_digest :: "string \<Rightarrow> 'd Field list \<Rightarrow> string" where
  "decl_order_digest name fs = name @ concat (map (\<lambda>f. Field_type f @ Field_name f) fs)"

definition decl_order_digest_name_first :: "string \<Rightarrow> 'd Field list \<Rightarrow> string" where
  "decl_order_digest_name_first name fs = name @ concat (map (\<lambda>f. Field_name f @ Field_type f) fs)"

text \<open>Concrete inputs used by the examples.\<close>

definition plain_field :: "string \<Rightarrow> string \<Rightarrow> unit Field" where
  "plain_field ty nm = \<lparr>Field_type = ty, Field_array = None, Field_name = nm,
     Field_properties = None, Field_default_value = None\<rparr>"

definition empty_registry :: "unit TypeRegistry" where
  "empty_registry = \<lparr>types = [], enums = [], structs = [], messages = []\<rparr>"

definition example_decls :: "unit Decl list" where
  "example_decls =
     [DEnumerate \<lparr>Enumerate_name = ''C'', Enumerate_values = [''R'', ''G'', ''B'']\<rparr>,
      DMessage \<lparr>Message_name = ''M'', Message_fields =
        [plain_field ''int32'' ''a'',
         (plain_field ''float'' ''b'')\<lparr>Field_array := Some (FieldArray None)\<rparr>]\<rparr>]"

section \<open>The emitters (\<^verbatim>\<open>codegen.cpp\<close>)\<close>

text \<open>
  Formatting of a double (\<^verbatim>\<open>oss << v\<close>) is the parameter \<open>fmt\<close>. The loops over the
  fields of one structure are the functions \<open>Cpp_struct_class\<close>, \<open>Cpp_struct_serializer\<close> and
  \<open>Py_struct_class\<close>; the loops over the registered structures concatenate them.
\<close>

definition nl :: string where "nl = [CHR 0x0A]"
definition tab :: string where "tab = [CHR 0x09]"
definition dquote :: string where "dquote = [CHR 0x22]"

definition digit_char :: "nat \<Rightarrow> char" where
  "digit_char d = ''0123456789'' ! (d mod 10)"

fun to_string :: "nat \<Rightarrow> string" where
  "to_string n = (if n < 10 then [digit_char n] else to_string (n div 10) @ [digit_char (n mod 10)])"

declare to_string.simps [simp del]

fun to_string_int :: "int \<Rightarrow> string" where
  "to_string_int v = (if v < 0 then ''-'' @ to_string (nat (- v)) else to_string (nat v))"

definition quoted :: "string \<Rightarrow> string" where
  "quoted s = [CHR 0x27] @ s @ [CHR 0x27]"

fun join_with :: "string \<Rightarrow> string list \<Rightarrow> string" where
  "join_with sep [] = []"
| "join_with sep [x] = x"
| "join_with sep (x # y # ys) = x @ sep @ join_with sep (y # ys)"

record 'd CppGenerator =
  registry :: "'d TypeRegistry"
  nspace :: string

definition CppGenerator_new :: "'d Description \<Rightarrow> 'd CppGenerator" where
  "CppGenerator_new desc =
     \<lparr>registry = buildRegistry desc, nspace = (case ns desc of Some n \<Rightarrow> n | None \<Rightarrow> [])\<rparr>"

definition getCppNamespace :: "'d CppGenerator \<Rightarrow> string" where
  "getCppNamespace gen =
     (if nspace gen = [] then []
      else ''::'' @ map (\<lambda>c. if c = CHR ''.'' then CHR '':'' else c) (nspace gen) @ ''::'')"

definition Cpp_formatValue :: "('d \<Rightarrow> string) \<Rightarrow> 'd Value \<Rightarrow> string" where
  "Cpp_formatValue fmt val =
     (case val of VDouble v \<Rightarrow> fmt v
      | VString v \<Rightarrow> dquote @ v @ dquote
      | VBool v \<Rightarrow> if v then ''true'' else ''false'')"

definition getFieldType :: "'d TypeRegistry \<Rightarrow> 'd Field \<Rightarrow> string" where
  "getFieldType reg field =
     (let baseType = (case getType reg (Field_type field) of
                        Some meta \<Rightarrow> getContainer meta ''cpp'' | None \<Rightarrow> Field_type field)
      in case Field_array field of
           Some arr \<Rightarrow>
             (case array_length arr of
                Some n \<Rightarrow> baseType @ ''['' @ to_string n @ '']''
              | None \<Rightarrow> ''std::vector<'' @ baseType @ ''>'')
         | None \<Rightarrow> baseType)"

definition Cpp_getDefaultValue :: "'d TypeRegistry \<Rightarrow> ('d \<Rightarrow> string) \<Rightarrow> 'd Field \<Rightarrow> string" where
  "Cpp_getDefaultValue reg fmt field =
     (case Field_default_value field of
        Some v \<Rightarrow> Cpp_formatValue fmt v
      | None \<Rightarrow>
         (let meta = getType reg (Field_type field);
              defval = (case meta of Some m \<Rightarrow> getDefault m ''cpp'' | None \<Rightarrow> []);
              baseType = (case meta of Some m \<Rightarrow> getContainer m ''cpp'' | None \<Rightarrow> Field_type field)
          in if defval \<noteq> [] then defval
             else case Field_array field of
                    Some arr \<Rightarrow>
                      (case array_length arr of
                         Some n \<Rightarrow> ''{}''
                       | None \<Rightarrow> ''std::vector<'' @ baseType @ ''>()'')
                  | None \<Rightarrow> baseType @ ''()''))"

definition Cpp_ctor_params ::
  "'d TypeRegistry \<Rightarrow> ('d \<Rightarrow> string) \<Rightarrow> (string \<times> 'd Field) list \<Rightarrow> string list" where
  "Cpp_ctor_params reg fmt flds =
     map (\<lambda>(fname, field). tab @ tab @ getFieldType reg field @ '' '' @ fname @ '' = '' @
                              Cpp_getDefaultValue reg fmt field) flds"

definition Cpp_struct_class ::
  "'d TypeRegistry \<Rightarrow> ('d \<Rightarrow> string) \<Rightarrow> string \<Rightarrow> (string \<times> 'd Field) list \<Rightarrow> string" where
  "Cpp_struct_class reg fmt name flds =
     ''class '' @ name @ '' {'' @ nl @ ''public:'' @ nl @
     tab @ name @ ''('' @ nl @
     join_with ('','' @ nl) (Cpp_ctor_params reg fmt flds) @
     nl @ tab @ '') {'' @ nl @
     concat (map (\<lambda>(fname, field). tab @ tab @ ''this->'' @ fname @ '' = '' @ fname @ '';'' @ nl) flds) @
     tab @ ''};'' @ nl @ nl @
     tab @ ''virtual ~'' @ name @ ''() {};'' @ nl @
     concat (map (\<lambda>(fname, field). tab @ getFieldType reg field @ '' '' @ fname @ '';'' @ nl) flds) @
     ''};'' @ nl @ nl"

definition Cpp_generateStructs :: "'d CppGenerator \<Rightarrow> ('d \<Rightarrow> string) \<Rightarrow> string" where
  "Cpp_generateStructs gen fmt =
     concat (map (\<lambda>(name, flds). Cpp_struct_class (registry gen) fmt name flds)
                 (structs (registry gen)))"

definition Cpp_struct_serializer :: "string \<Rightarrow> string \<Rightarrow> (string \<times> 'd Field) list \<Rightarrow> string" where
  "Cpp_struct_serializer cppns name flds =
     ''template <> inline void read(MessageReader& reader, '' @ cppns @ name @ ''& dst) {'' @ nl @
     concat (map (\<lambda>(fname, field). tab @ ''read(reader, dst.'' @ fname @ '');'' @ nl) flds) @
     ''}'' @ nl @ nl @
     ''template <> inline void write(MessageWriter& writer, const '' @ cppns @ name @ ''& src) {'' @ nl @
     concat (map (\<lambda>(fname, field). tab @ ''write(writer, src.'' @ fname @ '');'' @ nl) flds) @
     ''}'' @ nl @ nl"

definition Cpp_generateStructSerializers :: "'d CppGenerator \<Rightarrow> string" where
  "Cpp_generateStructSerializers gen =
     concat (map (\<lambda>(name, flds). Cpp_struct_serializer (getCppNamespace gen) name flds)
                 (structs (registry gen)))"

definition Py_formatValue :: "('d \<Rightarrow> string) \<Rightarrow> 'd Value \<Rightarrow> string" where
  "Py_formatValue fmt val =
     (case val of VDouble v \<Rightarrow> fmt v
      | VString v \<Rightarrow> dquote @ v @ dquote
      | VBool v \<Rightarrow> if v then ''True'' else ''False'')"

definition getPythonType :: "'d TypeRegistry \<Rightarrow> 'd Field \<Rightarrow> string" where
  "getPythonType reg field =
     (case getType reg (Field_type field) of
        Some meta \<Rightarrow> getContainer meta ''python'' | None \<Rightarrow> Field_type field)"

definition Py_getDefaultValue :: "'d TypeRegistry \<Rightarrow> ('d \<Rightarrow> string) \<Rightarrow> 'd Field \<Rightarrow> string" where
  "Py_getDefaultValue reg fmt field =
     (case Field_default_value field of
        Some v \<Rightarrow> Py_formatValue fmt v
      | None \<Rightarrow>
          if Field_array field \<noteq> None then ''None''
          else case getType reg (Field_type field) of
                 Some meta \<Rightarrow> getDefault meta ''python'' | None \<Rightarrow> ''None'')"

definition isArray :: "'d Field \<Rightarrow> bool" where
  "isArray field = (Field_array field \<noteq> None)"

definition isFixedArray :: "'d Field \<Rightarrow> bool" where
  "isFixedArray field = (case Field_array field of Some arr \<Rightarrow> array_length arr \<noteq> None | None \<Rightarrow> False)"

definition Py_ctor_body :: "'d TypeRegistry \<Rightarrow> string \<Rightarrow> 'd Field \<Rightarrow> string" where
  "Py_ctor_body reg fname field =
     (let guarded = (\<lambda>init.
            ''        if '' @ fname @ '' is None:'' @ nl @
            ''            self.'' @ fname @ '' = '' @ init @ nl @
            ''        else:'' @ nl @
            ''            self.'' @ fname @ '' = '' @ fname @ nl);
          plain = ''        self.'' @ fname @ '' = '' @ fname @ nl
      in if isArray field then guarded ''[]''
         else if Field_default_value field = None then
           (let defval = (case getType reg (Field_type field) of
                            Some meta \<Rightarrow> getDefault meta ''python'' | None \<Rightarrow> ''None'')
            in if defval = ''None'' then guarded (getPythonType reg field @ ''()'') else plain)
         else plain)"

definition Py_struct_class ::
  "'d TypeRegistry \<Rightarrow> ('d \<Rightarrow> string) \<Rightarrow> string \<Rightarrow> (string \<times> 'd Field) list \<Rightarrow> string" where
  "Py_struct_class reg fmt name flds =
     ''class '' @ name @ ''(object):'' @ nl @
     ''    def __init__(self'' @
     concat (map (\<lambda>(fname, field). '','' @ nl @ ''        '' @ fname @ '' = '' @
                                    Py_getDefaultValue reg fmt field) flds) @
     ''):'' @ nl @
     concat (map (\<lambda>(fname, field). Py_ctor_body reg fname field) flds) @
     ''        pass'' @ nl @ nl @
     ''    @staticmethod'' @ nl @
     ''    def read(reader):'' @ nl @
     ''        dst = '' @ name @ ''()'' @ nl @
     concat (map (\<lambda>(fname, field).
               if isArray field
               then ''        dst.'' @ fname @ '' = routio.readList('' @ getPythonType reg field @ '', reader)'' @ nl
               else ''        dst.'' @ fname @ '' = routio.readType('' @ getPythonType reg field @ '', reader)'' @ nl)
             flds) @
     ''        return dst'' @ nl @ nl @
     ''    @staticmethod'' @ nl @
     ''    def write(writer, obj):'' @ nl @
     concat (map (\<lambda>(fname, field).
               if isArray field
               then ''        routio.writeList('' @ getPythonType reg field @ '', writer, obj.'' @ fname @ '')'' @ nl
               else ''        routio.writeType('' @ getPythonType reg field @ '', writer, obj.'' @ fname @ '')'' @ nl)
             flds) @
     ''        pass'' @ nl @ nl @
     ''routio.registerType('' @ name @ '', '' @ name @ ''.read, '' @ name @ ''.write)'' @ nl @ nl"

definition Py_generateStructs :: "'d TypeRegistry \<Rightarrow> ('d \<Rightarrow> string) \<Rightarrow> string" where
  "Py_generateStructs reg fmt =
     concat (map (\<lambda>(name, flds). Py_struct_class reg fmt name flds) (structs reg))"

subsection \<open>The complete emitters\<close>

text \<open>
  \<^verbatim>\<open>::toupper\<close> is that of the C locale; \<open>getline_split\<close> is the loop
  \<^verbatim>\<open>while (std::getline(iss, part, '.'))\<close>, which yields no empty last part.
\<close>

definition toupper :: "char \<Rightarrow> char" where
  "toupper c = (if CHR ''a'' \<le> c \<and> c \<le> CHR ''z'' then char_of (of_char c - (32::nat)) else c)"

definition getSources :: "'d TypeRegistry \<Rightarrow> string \<Rightarrow> string list" where
  "getSources reg lang =
     fold (\<lambda>(name, meta) sources.
             fold (\<lambda>src sources. if src \<in> set sources then sources else sources @ [src])
                  (tm_sources meta) sources)
          (types reg)
          (if lang = ''cpp'' then [''vector'', ''chrono'', ''routio/datatypes.h'', ''routio/array.h'']
           else if lang = ''python'' then [''routio'', ''datetime'', ''numpy'']
           else [])"

fun getline_split :: "char \<Rightarrow> string \<Rightarrow> string \<Rightarrow> string list" where
  "getline_split d cur [] = (if cur = [] then [] else [cur])"
| "getline_split d cur (c # cs) =
     (if c = d then cur # getline_split d [] cs else getline_split d (cur @ [c]) cs)"

definition Cpp_generateHeader :: "string \<Rightarrow> string" where
  "Cpp_generateHeader basename =
     ''#ifndef __'' @ map toupper basename @ ''_MSGS_H'' @ nl @
     ''#define __'' @ map toupper basename @ ''_MSGS_H'' @ nl @ nl"

definition Cpp_generateIncludes :: "'d CppGenerator \<Rightarrow> string" where
  "Cpp_generateIncludes gen =
     concat (map (\<lambda>src. ''#include <'' @ src @ ''>'' @ nl) (getSources (registry gen) ''cpp''))"

definition Cpp_generateTypeSpecializations :: "'d CppGenerator \<Rightarrow> string" where
  "Cpp_generateTypeSpecializations gen =
     concat (map (\<lambda>(name, meta).
        if getReader meta ''cpp'' \<noteq> [] \<and> getWriter meta ''cpp'' \<noteq> [] then
          ''template <> inline void read(MessageReader& reader, '' @ getContainer meta ''cpp'' @ ''& dst) {'' @ nl @
          tab @ ''dst = '' @ getReader meta ''cpp'' @ ''(reader);'' @ nl @
          ''}'' @ nl @ nl @
          ''template <> inline void write(MessageWriter& writer, const '' @ getContainer meta ''cpp'' @ ''& src) {'' @ nl @
          tab @ getWriter meta ''cpp'' @ ''(writer, src);'' @ nl @
          ''}'' @ nl @ nl
        else []) (types (registry gen)))"

definition Cpp_generateNamespaceOpen :: "'d CppGenerator \<Rightarrow> string" where
  "Cpp_generateNamespaceOpen gen =
     (if nspace gen = [] then []
      else concat (map (\<lambda>part. ''namespace '' @ part @ '' {'' @ nl)
                       (getline_split (CHR ''.'') [] (nspace gen))) @ nl)"

definition Cpp_generateNamespaceClose :: "'d CppGenerator \<Rightarrow> string" where
  "Cpp_generateNamespaceClose gen =
     (if nspace gen = [] then []
      else concat (map (\<lambda>part. ''}'' @ nl) (rev (getline_split (CHR ''.'') [] (nspace gen)))))"

definition Cpp_generateEnums :: "'d CppGenerator \<Rightarrow> string" where
  "Cpp_generateEnums gen =
     concat (map (\<lambda>(name, values).
        ''enum '' @ name @ '' { '' @
        join_with '', '' (map (\<lambda>(val, idx). map toupper name @ ''_'' @ val) values) @
        '' };'' @ nl @ nl) (enums (registry gen)))"

definition Cpp_generateForwardDeclarations :: "'d CppGenerator \<Rightarrow> string" where
  "Cpp_generateForwardDeclarations gen =
     concat (map (\<lambda>(name, flds). ''class '' @ name @ '';'' @ nl) (structs (registry gen))) @ nl"

definition Cpp_generateEnumSerializers :: "'d CppGenerator \<Rightarrow> string" where
  "Cpp_generateEnumSerializers gen =
     concat (map (\<lambda>(name, values).
        ''template <> inline void read(MessageReader& reader, '' @ getCppNamespace gen @ name @ ''& dst) {'' @ nl @
        tab @ ''switch (reader.read<int>()) {'' @ nl @
        concat (map (\<lambda>(val, idx).
          tab @ ''case '' @ to_string_int idx @ '': dst = '' @ getCppNamespace gen @ map toupper name @
          ''_'' @ val @ ''; break;'' @ nl) values) @
        tab @ ''}'' @ nl @
        ''}'' @ nl @ nl @
        ''template <> inline void write(MessageWriter& writer, const '' @ getCppNamespace gen @ name @ ''& src) {'' @ nl @
        tab @ ''switch (src) {'' @ nl @
        concat (map (\<lambda>(val, idx).
          tab @ ''case '' @ getCppNamespace gen @ map toupper name @ ''_'' @ val @
          '': writer.write<int>('' @ to_string_int idx @ ''); return;'' @ nl) values) @
        tab @ ''}'' @ nl @
        ''}'' @ nl @ nl) (enums (registry gen)))"

definition Cpp_generateMessageSpecializations :: "'d CppGenerator \<Rightarrow> string" where
  "Cpp_generateMessageSpecializations gen =
     concat (map (\<lambda>msgName.
        ''template <> inline string get_type_identifier<'' @ getCppNamespace gen @ msgName @
        ''>() { return string('' @ dquote @ getHash (registry gen) msgName @ dquote @ ''); }'' @ nl @ nl @
        ''template<> inline shared_ptr<Message> routio::Message::pack<'' @ getCppNamespace gen @ msgName @
        ''>(const '' @ getCppNamespace gen @ msgName @ '' &data) {'' @ nl @
        tab @ ''MessageWriter writer;'' @ nl @
        tab @ ''write(writer, data);'' @ nl @
        tab @ ''return make_shared<BufferedMessage>(writer);'' @ nl @
        ''}'' @ nl @ nl @
        ''template<> inline shared_ptr<'' @ getCppNamespace gen @ msgName @
        ''> routio::Message::unpack<'' @ getCppNamespace gen @ msgName @ ''>(SharedMessage message) {'' @ nl @
        tab @ ''MessageReader reader(message);'' @ nl @
        tab @ ''shared_ptr<'' @ getCppNamespace gen @ msgName @ ''> result(new '' @
        getCppNamespace gen @ msgName @ ''());'' @ nl @
        tab @ ''read(reader, *result);'' @ nl @
        tab @ ''return result;'' @ nl @
        ''}'' @ nl @ nl) (messages (registry gen)))"

definition Cpp_generate :: "'d CppGenerator \<Rightarrow> ('d \<Rightarrow> string) \<Rightarrow> string \<Rightarrow> string" where
  "Cpp_generate gen fmt basename =
     ''// This is an autogenerated file, do not modify!'' @ nl @ nl @
     Cpp_generateHeader basename @
     Cpp_generateIncludes gen @
     nl @ ''namespace routio {'' @ nl @ nl @
     Cpp_generateTypeSpecializations gen @
     ''}'' @ nl @ nl @
     Cpp_generateNamespaceOpen gen @
     Cpp_generateEnums gen @
     Cpp_generateForwardDeclarations gen @
     Cpp_generateStructs gen fmt @
     Cpp_generateNamespaceClose gen @
     nl @ ''namespace routio {'' @ nl @ nl @
     Cpp_generateEnumSerializers gen @
     Cpp_generateStructSerializers gen @
     Cpp_generateMessageSpecializations gen @
     ''}'' @ nl @ nl @
     ''#endif'' @ nl"

definition generate_cpp :: "('d \<Rightarrow> string) \<Rightarrow> 'd Description \<Rightarrow> string \<Rightarrow> string" where
  "generate_cpp fmt desc basename = Cpp_generate (CppGenerator_new desc) fmt basename"

definition Py_generateHeader :: string where
  "Py_generateHeader =
     ''# This is an autogenerated file, do not modify!'' @ nl @
     ''from __future__ import absolute_import'' @ nl @
     ''from __future__ import division'' @ nl @
     ''from __future__ import print_function'' @ nl @
     ''from __future__ import unicode_literals'' @ nl @ nl @
     ''from builtins import super'' @ nl @ nl"

definition Py_generateImports :: "'d TypeRegistry \<Rightarrow> string" where
  "Py_generateImports reg =
     concat (map (\<lambda>src. ''import '' @ src @ nl) (getSources reg ''cpp'')) @
     (if getSources reg ''cpp'' \<noteq> [] then nl else [])"

definition Py_generateEnumHelper :: string where
  "Py_generateEnumHelper =
     ''def enum(name, enums):'' @ nl @
     ''    reverse = dict((value, key) for key, value in enums.items())'' @ nl @
     ''    enums['' @ dquote @ ''str'' @ dquote @ ''] = staticmethod(lambda x: reverse[x])'' @ nl @
     ''    return type(name, (), enums)'' @ nl @ nl @
     ''def enum_conversion(enum, obj):'' @ nl @
     ''    if isinstance(obj, int):'' @ nl @
     ''        return obj'' @ nl @
     ''    if isinstance(obj, str):'' @ nl @
     ''        return getattr(enum, obj)'' @ nl @
     ''    return 0'' @ nl @ nl"

definition Py_generateEnums :: "'d TypeRegistry \<Rightarrow> string" where
  "Py_generateEnums reg =
     concat (map (\<lambda>(name, values).
        name @ '' = enum('' @ dquote @ name @ dquote @ '', { '' @
        join_with '', '' (map (\<lambda>(val, idx). quoted val @ '' : '' @ to_string_int idx) values) @
        '' })'' @ nl @ nl @
        ''routio.registerType('' @ name @
        '', lambda x: x.readInt(), lambda x, o: x.writeInt(o), '' @
        ''lambda x: enum_conversion('' @ name @ '', x))'' @ nl @ nl) (enums reg))"

definition Py_generateExternalTypes :: "'d TypeRegistry \<Rightarrow> string" where
  "Py_generateExternalTypes reg =
     concat (map (\<lambda>(name, meta).
        if getReader meta ''python'' \<noteq> [] \<and> getWriter meta ''python'' \<noteq> [] then
          ''routio.registerType('' @ getContainer meta ''python'' @ '', '' @ getReader meta ''python'' @
          '', '' @ getWriter meta ''python'' @ '' )'' @ nl
        else []) (types reg)) @
     (if types reg \<noteq> [] then nl else [])"

definition Py_generateMessages :: "'d TypeRegistry \<Rightarrow> string" where
  "Py_generateMessages reg =
     concat (map (\<lambda>msgName.
        ''class '' @ msgName @ ''Subscriber(routio.Subscriber):'' @ nl @ nl @
        ''    def __init__(self, client, alias, callback):'' @ nl @
        ''        def _read(message):'' @ nl @
        ''            reader = routio.MessageReader(message)'' @ nl @
        ''            return '' @ msgName @ ''.read(reader)'' @ nl @ nl @
        ''        super('' @ msgName @ ''Subscriber, self).__init__(client, alias, '' @ dquote @
        getHash reg msgName @ dquote @ '', lambda x: callback(_read(x)))'' @ nl @ nl @ nl @
        ''class '' @ msgName @ ''Publisher(routio.Publisher):'' @ nl @ nl @
        ''    def __init__(self, client, alias):'' @ nl @
        ''        super('' @ msgName @ ''Publisher, self).__init__(client, alias, '' @ dquote @
        getHash reg msgName @ dquote @ '')'' @ nl @ nl @
        ''    def send(self, obj):'' @ nl @
        ''        writer = routio.MessageWriter()'' @ nl @
        ''        '' @ msgName @ ''.write(writer, obj)'' @ nl @
        ''        super('' @ msgName @ ''Publisher, self).send(writer)'' @ nl @ nl) (messages reg))"

definition generate_python :: "('d \<Rightarrow> string) \<Rightarrow> 'd Description \<Rightarrow> string" where
  "generate_python fmt desc =
     (let reg = buildRegistry desc in
      Py_generateHeader @
      Py_generateImports reg @
      Py_generateEnumHelper @
      Py_generateEnums reg @
      Py_generateExternalTypes reg @
      Py_generateStructs reg fmt @
      Py_generateMessages reg)"

section \<open>The lexer (\<^verbatim>\<open>parser.cpp\<close>)\<close>

text \<open>
  The character classes are those of the C locale. The lexer state is the record of the
  class members; every loop advances the position, which is its termination argument.
\<close>

record DescriptionError =
  err_file :: string
  err_line :: int
  err_column :: int
  err_message :: string

definition what :: "DescriptionError \<Rightarrow> string" where
  "what e = err_file e @ '' (line: '' @ to_string_int (err_line e) @ '', col: '' @
            to_string_int (err_column e) @ ''): '' @ err_message e"

datatype TokKind =
    TokEnd | TokIdent | TokNumber | TokString
  | TokLBrack | TokRBrack | TokLBrace | TokRBrace | TokLParen | TokRParen
  | TokColon | TokSemicolon | TokEquals | TokComma | TokDot

record Span =
  sp_offset :: nat
  sp_line :: int
  sp_col :: int

record Token =
  kind :: TokKind
  lexeme :: string
  span :: Span

record Lexer =
  lx_input :: string
  lx_i :: nat
  lx_line :: int
  lx_col :: int
  lx_lookahead :: "Token list"

definition Lexer_new :: "string \<Rightarrow> Lexer" where
  "Lexer_new inp = \<lparr>lx_input = inp, lx_i = 0, lx_line = 1, lx_col = 1, lx_lookahead = []\<rparr>"

definition isspace :: "char \<Rightarrow> bool" where
  "isspace c = (c = CHR 0x20 \<or> c = CHR 0x09 \<or> c = CHR 0x0A \<or> c = CHR 0x0B \<or> c = CHR 0x0C \<or> c = CHR 0x0D)"

definition isdigit :: "char \<Rightarrow> bool" where
  "isdigit c = (CHR ''0'' \<le> c \<and> c \<le> CHR ''9'')"

definition isalnum :: "char \<Rightarrow> bool" where
  "isalnum c = (isdigit c \<or> (CHR ''a'' \<le> c \<and> c \<le> CHR ''z'') \<or> (CHR ''A'' \<le> c \<and> c \<le> CHR ''Z''))"

definition isIdentChar :: "char \<Rightarrow> bool" where
  "isIdentChar c = (isalnum c \<or> c = CHR ''_'')"

definition ch :: "Lexer \<Rightarrow> char" where
  "ch lx = (if lx_i lx \<ge> length (lx_input lx) then CHR 0x00 else lx_input lx ! lx_i lx)"

definition chNext :: "Lexer \<Rightarrow> char" where
  "chNext lx = (if lx_i lx + 1 \<ge> length (lx_input lx) then CHR 0x00 else lx_input lx ! (lx_i lx + 1))"

definition advance :: "Lexer \<Rightarrow> Lexer" where
  "advance lx =
     (if lx_i lx \<ge> length (lx_input lx) then lx
      else if lx_input lx ! lx_i lx = CHR 0x0A
           then lx\<lparr>lx_line := lx_line lx + 1, lx_col := 1, lx_i := lx_i lx + 1\<rparr>
           else lx\<lparr>lx_col := lx_col lx + 1, lx_i := lx_i lx + 1\<rparr>)"

definition remaining :: "Lexer \<Rightarrow> nat" where
  "remaining lx = length (lx_input lx) - lx_i lx"

lemma advance_remaining: "ch lx \<noteq> CHR 0x00 \<Longrightarrow> remaining (advance lx) < remaining lx"
  by (auto simp: ch_def advance_def remaining_def split: if_splits)

lemma isspace_not_nul: "isspace c \<Longrightarrow> c \<noteq> CHR 0x00"
  by (auto simp: isspace_def)

lemma isdigit_not_nul: "isdigit c \<Longrightarrow> c \<noteq> CHR 0x00"
  by (auto simp: isdigit_def less_eq_char_def)

lemma isIdentChar_not_nul: "isIdentChar c \<Longrightarrow> c \<noteq> CHR 0x00"
  by (auto simp: isIdentChar_def isalnum_def isdigit_def less_eq_char_def)

function skip_space :: "Lexer \<Rightarrow> Lexer" where
  "skip_space lx = (if isspace (ch lx) then skip_space (advance lx) else lx)"
  by pat_completeness auto
termination
  by (relation "measure remaining") (auto dest: isspace_not_nul advance_remaining)

function skip_line :: "Lexer \<Rightarrow> Lexer" where
  "skip_line lx = (if ch lx \<noteq> CHR 0x00 \<and> ch lx \<noteq> CHR 0x0A then skip_line (advance lx) else lx)"
  by pat_completeness auto
termination
  by (relation "measure remaining") (auto dest: advance_remaining)

function skip_digits :: "Lexer \<Rightarrow> Lexer" where
  "skip_digits lx = (if isdigit (ch lx) then skip_digits (advance lx) else lx)"
  by pat_completeness auto
termination
  by (relation "measure remaining") (auto dest: isdigit_not_nul advance_remaining)

function skip_ident :: "Lexer \<Rightarrow> Lexer" where
  "skip_ident lx = (if isIdentChar (ch lx) then skip_ident (advance lx) else lx)"
  by pat_completeness auto
termination
  by (relation "measure remaining") (auto dest: isIdentChar_not_nul advance_remaining)

declare skip_space.simps [simp del] skip_line.simps [simp del]
  skip_digits.simps [simp del] skip_ident.simps [simp del]

lemma skip_space_remaining: "remaining (skip_space lx) \<le> remaining lx"
proof (induction lx rule: skip_space.induct)
  case (1 lx)
  show ?case
  proof (cases "isspace (ch lx)")
    case True
    then have "remaining (advance lx) < remaining lx"
      by (auto dest: isspace_not_nul advance_remaining)
    with 1 True show ?thesis by (simp add: skip_space.simps [of lx])
  next
    case False
    then show ?thesis by (simp add: skip_space.simps [of lx])
  qed
qed

lemma skip_line_remaining: "remaining (skip_line lx) \<le> remaining lx"
proof (induction lx rule: skip_line.induct)
  case (1 lx)
  show ?case
  proof (cases "ch lx \<noteq> CHR 0x00 \<and> ch lx \<noteq> CHR 0x0A")
    case True
    then have "remaining (advance lx) < remaining lx"
      by (auto dest: advance_remaining)
    with 1 True show ?thesis by (simp add: skip_line.simps [of lx])
  next
    case False
    then show ?thesis by (auto simp: skip_line.simps [of lx])
  qed
qed

lemma skip_line_hash: "ch lx = CHR ''#'' \<Longrightarrow> remaining (skip_line lx) < remaining lx"
proof -
  assume h: "ch lx = CHR ''#''"
  then have "skip_line lx = skip_line (advance lx)" by (simp add: skip_line.simps [of lx])
  moreover from h have "remaining (advance lx) < remaining lx" by (simp add: advance_remaining)
  ultimately show ?thesis using skip_line_remaining [of "advance lx"] by simp
qed

function skipWsAndComments :: "Lexer \<Rightarrow> Lexer" where
  "skipWsAndComments lx =
     (if ch (skip_space lx) = CHR ''#'' then skipWsAndComments (skip_line (skip_space lx))
      else skip_space lx)"
  by pat_completeness auto
termination
proof (relation "measure remaining")
  show "wf (measure remaining)" by simp
next
  fix lx assume "ch (skip_space lx) = CHR ''#''"
  then have "remaining (skip_line (skip_space lx)) < remaining (skip_space lx)"
    by (rule skip_line_hash)
  with skip_space_remaining [of lx]
  show "(skip_line (skip_space lx), lx) \<in> measure remaining" by simp
qed

declare skipWsAndComments.simps [simp del]

definition make :: "TokKind \<Rightarrow> nat \<Rightarrow> Span \<Rightarrow> Lexer \<Rightarrow> Token" where
  "make k start sp lx =
     \<lparr>kind = k, lexeme = take (lx_i lx - start) (drop start (lx_input lx)), span = sp\<rparr>"

definition here :: "Lexer \<Rightarrow> Span" where
  "here lx = \<lparr>sp_offset = lx_i lx, sp_line = lx_line lx, sp_col = lx_col lx\<rparr>"

function lexString_loop :: "Span \<Rightarrow> bool \<Rightarrow> Lexer \<Rightarrow> DescriptionError + Lexer" where
  "lexString_loop sp escaped lx =
     (if ch lx = CHR 0x00 \<or> ch lx = CHR 0x0A
      then Inl \<lparr>err_file = ''<input>'', err_line = sp_line sp, err_column = sp_col sp,
                err_message = ''Unterminated string literal''\<rparr>
      else if escaped then lexString_loop sp False (advance lx)
      else if ch lx = CHR 0x5C then lexString_loop sp True (advance lx)
      else if ch lx = CHR 0x22 then Inr (advance lx)
      else lexString_loop sp False (advance lx))"
  by pat_completeness auto
termination
  by (relation "measure (\<lambda>(sp, escaped, lx). remaining lx)") (auto intro!: advance_remaining)

declare lexString_loop.simps [simp del]

definition lexString :: "Lexer \<Rightarrow> DescriptionError + (Token \<times> Lexer)" where
  "lexString lx =
     (case lexString_loop (here lx) False (advance lx) of
        Inl e \<Rightarrow> Inl e
      | Inr lx' \<Rightarrow> Inr (make TokString (lx_i lx) (here lx) lx', lx'))"

definition lexNumber :: "Lexer \<Rightarrow> DescriptionError + (Token \<times> Lexer)" where
  "lexNumber lx =
     (let lx1 = (if ch lx = CHR ''+'' \<or> ch lx = CHR ''-'' then advance lx else lx);
          lx2 = skip_digits lx1;
          lx3 = (if ch lx2 = CHR ''.'' then skip_digits (advance lx2) else lx2)
      in if ch lx3 = CHR ''e'' \<or> ch lx3 = CHR ''E'' then
           (let lx4 = advance lx3;
                lx5 = (if ch lx4 = CHR ''+'' \<or> ch lx4 = CHR ''-'' then advance lx4 else lx4)
            in if \<not> isdigit (ch lx5)
               then Inl \<lparr>err_file = ''<input>'', err_line = lx_line lx, err_column = lx_col lx,
                         err_message = ''Malformed exponent in number literal''\<rparr>
               else Inr (make TokNumber (lx_i lx) (here lx) (skip_digits lx5), skip_digits lx5))
         else Inr (make TokNumber (lx_i lx) (here lx) lx3, lx3))"

definition lexIdent :: "Lexer \<Rightarrow> Token \<times> Lexer" where
  "lexIdent lx = (make TokIdent (lx_i lx) (here lx) (skip_ident lx), skip_ident lx)"

definition symbol_kind :: "char \<Rightarrow> TokKind option" where
  "symbol_kind c =
     (if c = CHR ''['' then Some TokLBrack
      else if c = CHR '']'' then Some TokRBrack
      else if c = CHR ''{'' then Some TokLBrace
      else if c = CHR ''}'' then Some TokRBrace
      else if c = CHR ''('' then Some TokLParen
      else if c = CHR '')'' then Some TokRParen
      else if c = CHR '':'' then Some TokColon
      else if c = CHR '';'' then Some TokSemicolon
      else if c = CHR ''='' then Some TokEquals
      else if c = CHR '','' then Some TokComma
      else if c = CHR ''.'' then Some TokDot
      else None)"

definition nextImpl :: "Lexer \<Rightarrow> DescriptionError + (Token \<times> Lexer)" where
  "nextImpl lx0 =
     (let lx = skipWsAndComments lx0; c = ch lx in
      if c = CHR 0x00 then Inr (\<lparr>kind = TokEnd, lexeme = [], span = here lx\<rparr>, lx)
      else if c = CHR 0x22 then lexString lx
      else if isdigit c \<or> ((c = CHR ''+'' \<or> c = CHR ''-'') \<and> isdigit (chNext lx)) then lexNumber lx
      else if isIdentChar c then Inr (lexIdent lx)
      else case symbol_kind c of
             Some k \<Rightarrow> Inr (make k (lx_i lx) (here lx) (advance lx), advance lx)
           | None \<Rightarrow> Inl \<lparr>err_file = ''<input>'', err_line = lx_line lx, err_column = lx_col lx,
                          err_message = ''Unexpected character: '' @ [CHR 0x27, c, CHR 0x27]\<rparr>)"

lemma advance_lookahead [simp]: "lx_lookahead (advance lx) = lx_lookahead lx"
  by (simp add: advance_def)

lemma skip_space_lookahead [simp]: "lx_lookahead (skip_space lx) = lx_lookahead lx"
  by (induction lx rule: skip_space.induct) (simp add: skip_space.simps)

lemma skip_line_lookahead [simp]: "lx_lookahead (skip_line lx) = lx_lookahead lx"
  by (induction lx rule: skip_line.induct) (simp add: skip_line.simps)

lemma skip_digits_lookahead [simp]: "lx_lookahead (skip_digits lx) = lx_lookahead lx"
  by (induction lx rule: skip_digits.induct) (simp add: skip_digits.simps)

lemma skip_ident_lookahead [simp]: "lx_lookahead (skip_ident lx) = lx_lookahead lx"
  by (induction lx rule: skip_ident.induct) (simp add: skip_ident.simps)

lemma skipWsAndComments_lookahead [simp]: "lx_lookahead (skipWsAndComments lx) = lx_lookahead lx"
  by (induction lx rule: skipWsAndComments.induct) (simp add: skipWsAndComments.simps)

lemma lexString_loop_lookahead:
  "lexString_loop sp escaped lx = Inr lx' \<Longrightarrow> lx_lookahead lx' = lx_lookahead lx"
proof (induction sp escaped lx rule: lexString_loop.induct)
  case (1 sp escaped lx)
  from "1.prems" show ?case
    using "1.IH" by (subst (asm) lexString_loop.simps) (auto split: if_splits)
qed

lemma nextImpl_lookahead:
  "nextImpl lx = Inr (t, lx') \<Longrightarrow> lx_lookahead lx' = lx_lookahead lx"
  by (auto simp: nextImpl_def lexString_def lexNumber_def lexIdent_def Let_def
      split: if_splits sum.splits option.splits dest: lexString_loop_lookahead)

function fill_lookahead :: "nat \<Rightarrow> Lexer \<Rightarrow> DescriptionError + Lexer" where
  "fill_lookahead k lx =
     (if length (lx_lookahead lx) \<le> k
      then (case nextImpl lx of
              Inl e \<Rightarrow> Inl e
            | Inr (t, lx') \<Rightarrow> fill_lookahead k (lx'\<lparr>lx_lookahead := lx_lookahead lx' @ [t]\<rparr>))
      else Inr lx)"
  by pat_completeness auto
termination
  by (relation "measure (\<lambda>(k, lx). Suc k - length (lx_lookahead lx))")
     (auto dest: nextImpl_lookahead)

declare fill_lookahead.simps [simp del]

definition peek :: "nat \<Rightarrow> Lexer \<Rightarrow> DescriptionError + (Token \<times> Lexer)" where
  "peek k lx =
     (case fill_lookahead k lx of Inl e \<Rightarrow> Inl e | Inr lx' \<Rightarrow> Inr (lx_lookahead lx' ! k, lx'))"

definition next_token :: "Lexer \<Rightarrow> DescriptionError + (Token \<times> Lexer)" where
  "next_token lx =
     (case lx_lookahead lx of
        t # ts \<Rightarrow> Inr (t, lx\<lparr>lx_lookahead := ts\<rparr>)
      | [] \<Rightarrow> nextImpl lx)"

subsection \<open>Parser helpers\<close>

definition errorAt :: "string \<Rightarrow> Token \<Rightarrow> string \<Rightarrow> DescriptionError" where
  "errorAt filename t msg =
     \<lparr>err_file = filename, err_line = sp_line (span t), err_column = sp_col (span t), err_message = msg\<rparr>"

definition expect :: "string \<Rightarrow> TokKind \<Rightarrow> string \<Rightarrow> Lexer \<Rightarrow> DescriptionError + (Token \<times> Lexer)" where
  "expect filename k msg lx =
     (case next_token lx of
        Inl e \<Rightarrow> Inl e
      | Inr (t, lx') \<Rightarrow> if kind t \<noteq> k then Inl (errorAt filename t msg) else Inr (t, lx'))"

definition match :: "TokKind \<Rightarrow> Lexer \<Rightarrow> DescriptionError + (bool \<times> Lexer)" where
  "match k lx =
     (case peek 0 lx of
        Inl e \<Rightarrow> Inl e
      | Inr (t, lx') \<Rightarrow>
          if kind t = k
          then (case next_token lx' of Inl e \<Rightarrow> Inl e | Inr (t', lx'') \<Rightarrow> Inr (True, lx''))
          else Inr (False, lx'))"

definition unescape :: "char \<Rightarrow> char" where
  "unescape e =
     (if e = CHR 0x5C then CHR 0x5C
      else if e = CHR 0x22 then CHR 0x22
      else if e = CHR ''n'' then CHR 0x0A
      else if e = CHR ''r'' then CHR 0x0D
      else if e = CHR ''t'' then CHR 0x09
      else e)"

function unquote_loop :: "string \<Rightarrow> nat \<Rightarrow> string \<Rightarrow> DescriptionError \<Rightarrow> DescriptionError + string" where
  "unquote_loop s i out err =
     (if i + 1 < length s then
        (if s ! i \<noteq> CHR 0x5C then unquote_loop s (i + 1) (out @ [s ! i]) err
         else if i + 1 \<ge> length s - 1 then Inl err
         else unquote_loop s (i + 2) (out @ [unescape (s ! (i + 1))]) err)
      else Inr out)"
  by pat_completeness auto
termination
  by (relation "measure (\<lambda>(s, i, out, err). length s - i)") auto

declare unquote_loop.simps [simp del]

definition unquote :: "string \<Rightarrow> Token \<Rightarrow> string \<Rightarrow> DescriptionError + string" where
  "unquote s t filename =
     (if length s < 2 \<or> hd s \<noteq> CHR 0x22 \<or> last s \<noteq> CHR 0x22
      then Inl (errorAt filename t ''Internal error: invalid string token'')
      else unquote_loop s 1 [] (errorAt filename t ''Invalid escape sequence in string''))"

datatype errc = errc_ok | invalid_argument | result_out_of_range

definition SIZE_MAX :: int where
  "SIZE_MAX = 18446744073709551615"

definition digit_value :: "char \<Rightarrow> int" where
  "digit_value c = of_char c - of_char (CHR ''0'')"

definition dec_value :: "string \<Rightarrow> int" where
  "dec_value ds = foldl (\<lambda>v c. 10 * v + digit_value c) 0 ds"

definition from_chars :: "string \<Rightarrow> nat \<times> errc \<times> nat" where
  "from_chars sv =
     (let ds = takeWhile isdigit sv in
      if ds = [] then (0, invalid_argument, 0)
      else if dec_value ds > SIZE_MAX then (length ds, result_out_of_range, 0)
      else (length ds, errc_ok, nat (dec_value ds)))"

definition parseOptionalArray :: "string \<Rightarrow> Lexer \<Rightarrow> DescriptionError + (FieldArray option \<times> Lexer)" where
  "parseOptionalArray filename lx =
     (case match TokLBrack lx of
        Inl e \<Rightarrow> Inl e
      | Inr (False, lx1) \<Rightarrow> Inr (None, lx1)
      | Inr (True, lx1) \<Rightarrow>
          (case peek 0 lx1 of
             Inl e \<Rightarrow> Inl e
           | Inr (t0, lx2) \<Rightarrow>
               if kind t0 = TokNumber then
                 (case next_token lx2 of
                    Inl e \<Rightarrow> Inl e
                  | Inr (t, lx3) \<Rightarrow>
                      if lexeme t \<noteq> [] \<and> (hd (lexeme t) = CHR ''+'' \<or> hd (lexeme t) = CHR ''-'')
                      then Inl (errorAt filename t ''Array length must be a non-negative integer'')
                      else (case from_chars (lexeme t) of
                              (ptr, ec, len) \<Rightarrow>
                                if ec \<noteq> errc_ok \<or> ptr \<noteq> length (lexeme t)
                                then Inl (errorAt filename t ''Array length must be an integer'')
                                else (case expect filename TokRBrack (''Expected '' @ [CHR 0x27, CHR '']'', CHR 0x27] @ '' after array specifier'') lx3 of
                                        Inl e \<Rightarrow> Inl e
                                      | Inr (t', lx4) \<Rightarrow> Inr (Some (FieldArray (Some len)), lx4))))
               else (case expect filename TokRBrack (''Expected '' @ [CHR 0x27, CHR '']'', CHR 0x27] @ '' after array specifier'') lx2 of
                       Inl e \<Rightarrow> Inl e
                     | Inr (t', lx4) \<Rightarrow> Inr (Some (FieldArray None), lx4))))"

subsection \<open>Token budget\<close>

text \<open>
  The termination argument of the parser's loops: twice the number of characters still to
  be read plus the number of tokens other than the end token waiting in the lookahead
  buffer. No lexer operation raises it and consuming a token other than the end token
  lowers it.
\<close>

lemma fill_lookahead_nonempty:
  "fill_lookahead 0 lx = Inr lx' \<Longrightarrow> lx_lookahead lx' \<noteq> []"
proof (induction "0::nat" lx rule: fill_lookahead.induct)
  case (1 lx)
  from "1.prems" show ?case
    using "1.hyps" by (subst (asm) fill_lookahead.simps) (auto split: if_splits sum.splits)
qed

lemma peek_then_next:
  assumes "peek 0 lx = Inr (t, lx2)"
  shows "next_token lx2 = Inr (t, lx2\<lparr>lx_lookahead := tl (lx_lookahead lx2)\<rparr>)"
proof -
  from assms have f: "fill_lookahead 0 lx = Inr lx2" and t: "t = lx_lookahead lx2 ! 0"
    by (auto simp: peek_def split: sum.splits)
  from fill_lookahead_nonempty [OF f] obtain a as where "lx_lookahead lx2 = a # as"
    by (cases "lx_lookahead lx2") auto
  with t show ?thesis by (simp add: next_token_def)
qed

definition budget :: "Lexer \<Rightarrow> nat" where
  "budget lx = 2 * remaining lx + length (filter (\<lambda>t. kind t \<noteq> TokEnd) (lx_lookahead lx))"

lemma advance_le: "remaining (advance lx) \<le> remaining lx"
  by (auto simp: advance_def remaining_def)

lemma skip_digits_remaining: "remaining (skip_digits lx) \<le> remaining lx"
proof (induction lx rule: skip_digits.induct)
  case (1 lx)
  show ?case
  proof (cases "isdigit (ch lx)")
    case True
    with 1 advance_le [of lx] show ?thesis by (simp add: skip_digits.simps [of lx])
  next
    case False
    then show ?thesis by (simp add: skip_digits.simps [of lx])
  qed
qed

lemma skip_ident_remaining: "remaining (skip_ident lx) \<le> remaining lx"
proof (induction lx rule: skip_ident.induct)
  case (1 lx)
  show ?case
  proof (cases "isIdentChar (ch lx)")
    case True
    with 1 advance_le [of lx] show ?thesis by (simp add: skip_ident.simps [of lx])
  next
    case False
    then show ?thesis by (simp add: skip_ident.simps [of lx])
  qed
qed

lemma skipWsAndComments_remaining: "remaining (skipWsAndComments lx) \<le> remaining lx"
proof (induction lx rule: skipWsAndComments.induct)
  case (1 lx)
  show ?case
  proof (cases "ch (skip_space lx) = CHR ''#''")
    case True
    with 1 have "remaining (skipWsAndComments (skip_line (skip_space lx))) \<le> remaining (skip_line (skip_space lx))"
      by simp
    with skip_line_remaining [of "skip_space lx"] skip_space_remaining [of lx] True
    show ?thesis by (simp add: skipWsAndComments.simps [of lx])
  next
    case False
    with skip_space_remaining [of lx] show ?thesis by (simp add: skipWsAndComments.simps [of lx])
  qed
qed

lemma lexString_loop_remaining:
  "lexString_loop sp escaped lx = Inr lx' \<Longrightarrow> remaining lx' \<le> remaining lx"
proof (induction sp escaped lx rule: lexString_loop.induct)
  case (1 sp escaped lx)
  from "1.prems" "1.IH" advance_le [of lx] show ?case
    by (subst (asm) lexString_loop.simps) (fastforce split: if_splits)
qed

lemma lexString_progress:
  assumes "lexString lx = Inr (t, lx')" "ch lx \<noteq> CHR 0x00"
  shows "remaining lx' < remaining lx"
proof -
  from assms(1) have "lexString_loop (here lx) False (advance lx) = Inr lx'"
    by (auto simp: lexString_def split: sum.splits)
  then have "remaining lx' \<le> remaining (advance lx)" by (rule lexString_loop_remaining)
  with advance_remaining [OF assms(2)] show ?thesis by simp
qed

lemma skip_digits_progress: "isdigit (ch lx) \<Longrightarrow> remaining (skip_digits lx) < remaining lx"
proof -
  assume d: "isdigit (ch lx)"
  then have "skip_digits lx = skip_digits (advance lx)" by (simp add: skip_digits.simps [of lx])
  moreover from d have "remaining (advance lx) < remaining lx"
    by (auto dest: isdigit_not_nul advance_remaining)
  ultimately show ?thesis using skip_digits_remaining [of "advance lx"] by simp
qed

lemma skip_ident_progress: "isIdentChar (ch lx) \<Longrightarrow> remaining (skip_ident lx) < remaining lx"
proof -
  assume d: "isIdentChar (ch lx)"
  then have "skip_ident lx = skip_ident (advance lx)" by (simp add: skip_ident.simps [of lx])
  moreover from d have "remaining (advance lx) < remaining lx"
    by (auto dest: isIdentChar_not_nul advance_remaining)
  ultimately show ?thesis using skip_ident_remaining [of "advance lx"] by simp
qed

lemma lexNumber_progress:
  assumes "lexNumber lx = Inr (t, lx')"
    and "isdigit (ch lx) \<or> ch lx = CHR ''+'' \<or> ch lx = CHR ''-''"
  shows "remaining lx' < remaining lx"
proof -
  define lx1 where "lx1 = (if ch lx = CHR ''+'' \<or> ch lx = CHR ''-'' then advance lx else lx)"
  define lx2 where "lx2 = skip_digits lx1"
  define lx3 where "lx3 = (if ch lx2 = CHR ''.'' then skip_digits (advance lx2) else lx2)"
  have a: "remaining lx2 < remaining lx"
  proof (cases "ch lx = CHR ''+'' \<or> ch lx = CHR ''-''")
    case True
    then have "ch lx \<noteq> CHR 0x00" by auto
    then have "remaining (advance lx) < remaining lx" by (rule advance_remaining)
    with True skip_digits_remaining [of "advance lx"] show ?thesis by (simp add: lx2_def lx1_def)
  next
    case False
    with assms(2) have "isdigit (ch lx)" by simp
    with False skip_digits_progress [of lx] show ?thesis by (simp add: lx2_def lx1_def)
  qed
  have b: "remaining lx3 \<le> remaining lx2"
    using skip_digits_remaining [of "advance lx2"] advance_le [of lx2] by (simp add: lx3_def)
  have c: "lx' = lx3 \<or> remaining lx' \<le> remaining lx3"
  proof -
    let ?lx4 = "advance lx3"
    let ?lx5 = "if ch ?lx4 = CHR ''+'' \<or> ch ?lx4 = CHR ''-'' then advance ?lx4 else ?lx4"
    have "remaining (skip_digits ?lx5) \<le> remaining lx3"
      using skip_digits_remaining [of ?lx5] advance_le [of ?lx4] advance_le [of lx3]
      by (auto split: if_splits)
    moreover from assms(1) have "lx' = lx3 \<or> lx' = skip_digits ?lx5"
      by (auto simp: lexNumber_def Let_def lx3_def lx2_def lx1_def split: if_splits)
    ultimately show ?thesis by auto
  qed
  from a b c show ?thesis by auto
qed

lemma nextImpl_remaining:
  assumes "nextImpl lx = Inr (t, lx')"
  shows "remaining lx' \<le> remaining lx \<and> (kind t \<noteq> TokEnd \<longrightarrow> remaining lx' < remaining lx)"
proof -
  let ?lx = "skipWsAndComments lx"
  note s = skipWsAndComments_remaining [of lx]
  consider (e) "ch ?lx = CHR 0x00"
    | (s) "ch ?lx \<noteq> CHR 0x00" "ch ?lx = CHR 0x22"
    | (n) "ch ?lx \<noteq> CHR 0x00" "ch ?lx \<noteq> CHR 0x22"
          "isdigit (ch ?lx) \<or> ((ch ?lx = CHR ''+'' \<or> ch ?lx = CHR ''-'') \<and> isdigit (chNext ?lx))"
    | (i) "ch ?lx \<noteq> CHR 0x00" "ch ?lx \<noteq> CHR 0x22"
          "\<not> (isdigit (ch ?lx) \<or> ((ch ?lx = CHR ''+'' \<or> ch ?lx = CHR ''-'') \<and> isdigit (chNext ?lx)))"
          "isIdentChar (ch ?lx)"
    | (y) "ch ?lx \<noteq> CHR 0x00" "ch ?lx \<noteq> CHR 0x22"
          "\<not> (isdigit (ch ?lx) \<or> ((ch ?lx = CHR ''+'' \<or> ch ?lx = CHR ''-'') \<and> isdigit (chNext ?lx)))"
          "\<not> isIdentChar (ch ?lx)"
    by blast
  then show ?thesis
  proof cases
    case e
    with assms s show ?thesis by (auto simp: nextImpl_def Let_def)
  next
    case s
    with assms have "lexString ?lx = Inr (t, lx')" by (simp add: nextImpl_def Let_def)
    from lexString_progress [OF this s(1)] \<open>remaining ?lx \<le> remaining lx\<close> show ?thesis by simp
  next
    case n
    with assms have l: "lexNumber ?lx = Inr (t, lx')" by (simp add: nextImpl_def Let_def)
    from n(3) have "isdigit (ch ?lx) \<or> ch ?lx = CHR ''+'' \<or> ch ?lx = CHR ''-''" by auto
    from lexNumber_progress [OF l this] \<open>remaining ?lx \<le> remaining lx\<close> show ?thesis by simp
  next
    case i
    with assms have "lx' = skip_ident ?lx" by (simp add: nextImpl_def Let_def lexIdent_def)
    with skip_ident_progress [OF i(4)] \<open>remaining ?lx \<le> remaining lx\<close> show ?thesis by simp
  next
    case y
    with assms have "lx' = advance ?lx"
      by (auto simp: nextImpl_def Let_def split: option.splits)
    with advance_remaining [OF y(1)] \<open>remaining ?lx \<le> remaining lx\<close> show ?thesis by simp
  qed
qed

lemma nextImpl_budget:
  assumes "nextImpl lx = Inr (t, lx')"
  shows "budget (lx'\<lparr>lx_lookahead := lx_lookahead lx' @ [t]\<rparr>) \<le> budget lx"
    and "budget lx' \<le> budget lx" and "kind t \<noteq> TokEnd \<Longrightarrow> budget lx' < budget lx"
  using nextImpl_remaining [OF assms] nextImpl_lookahead [OF assms]
  by (auto simp: budget_def remaining_def)

lemma fill_lookahead_budget:
  "fill_lookahead k lx = Inr lx' \<Longrightarrow> budget lx' \<le> budget lx"
proof (induction k lx rule: fill_lookahead.induct)
  case (1 k lx)
  show ?case
  proof (cases "length (lx_lookahead lx) \<le> k")
    case False
    with "1.prems" show ?thesis by (simp add: fill_lookahead.simps [of k lx])
  next
    case True
    with "1.prems" obtain t lx1 where n: "nextImpl lx = Inr (t, lx1)"
      and f: "fill_lookahead k (lx1\<lparr>lx_lookahead := lx_lookahead lx1 @ [t]\<rparr>) = Inr lx'"
      by (auto simp: fill_lookahead.simps [of k lx] split: sum.splits)
    from "1.IH" [OF True n refl f] nextImpl_budget(1) [OF n] show ?thesis by simp
  qed
qed

lemma peek_budget: "peek k lx = Inr (t, lx') \<Longrightarrow> budget lx' \<le> budget lx"
  by (auto simp: peek_def split: sum.splits dest: fill_lookahead_budget)

lemma next_token_budget:
  assumes "next_token lx = Inr (t, lx')"
  shows "budget lx' \<le> budget lx" and "kind t \<noteq> TokEnd \<Longrightarrow> budget lx' < budget lx"
proof -
  show "budget lx' \<le> budget lx"
  proof (cases "lx_lookahead lx")
    case Nil
    with assms nextImpl_budget(2) [of lx t lx'] show ?thesis by (simp add: next_token_def)
  next
    case (Cons a as)
    with assms show ?thesis by (auto simp: next_token_def budget_def remaining_def)
  qed
  show "budget lx' < budget lx" if "kind t \<noteq> TokEnd"
  proof (cases "lx_lookahead lx")
    case Nil
    with assms that nextImpl_budget(3) [of lx t lx'] show ?thesis by (simp add: next_token_def)
  next
    case (Cons a as)
    with assms that show ?thesis by (auto simp: next_token_def budget_def remaining_def)
  qed
qed

lemma expect_budget:
  assumes "expect filename k msg lx = Inr (t, lx')"
  shows "budget lx' \<le> budget lx" and "k \<noteq> TokEnd \<Longrightarrow> budget lx' < budget lx" and "kind t = k"
proof -
  from assms have n: "next_token lx = Inr (t, lx')" and k: "kind t = k"
    by (auto simp: expect_def split: sum.splits if_splits)
  from next_token_budget [OF n] k show "budget lx' \<le> budget lx"
    and "k \<noteq> TokEnd \<Longrightarrow> budget lx' < budget lx" and "kind t = k" by auto
qed

lemma match_budget:
  assumes "match k lx = Inr (b, lx')"
  shows "budget lx' \<le> budget lx" and "b \<Longrightarrow> k \<noteq> TokEnd \<Longrightarrow> budget lx' < budget lx"
proof -
  from assms obtain t lx1 where p: "peek 0 lx = Inr (t, lx1)"
    by (auto simp: match_def split: sum.splits)
  note pb = peek_budget [OF p]
  show "budget lx' \<le> budget lx"
  proof (cases "kind t = k")
    case True
    with assms p obtain t' where "next_token lx1 = Inr (t', lx')"
      by (auto simp: match_def split: sum.splits)
    from next_token_budget(1) [OF this] pb show ?thesis by simp
  next
    case False
    with assms p pb show ?thesis by (simp add: match_def)
  qed
  show "budget lx' < budget lx" if "b" "k \<noteq> TokEnd"
  proof -
    from assms p that have kt: "kind t = k" by (auto simp: match_def split: if_splits)
    with assms p obtain t' where n: "next_token lx1 = Inr (t', lx')"
      by (auto simp: match_def split: sum.splits)
    from peek_then_next [OF p] n have "t' = t" by simp
    with next_token_budget(2) [OF n] kt that pb show ?thesis by simp
  qed
qed

section \<open>The parser (\<^verbatim>\<open>parser.cpp\<close>)\<close>

text \<open>
  A parser function takes the lexer state and returns the error it throws or its result
  with the new lexer state; \<open>andThen\<close> sequences two of them. \<^verbatim>\<open>parseDouble_\<close> is the
  parameter \<open>strtod\<close>: it returns the double when \<^verbatim>\<open>std::strtod\<close> consumes the whole lexeme and
  the value is finite. Where the source peeks at the same token twice in a row the model
  peeks once.
\<close>

definition andThen ::
  "DescriptionError + ('a \<times> Lexer) \<Rightarrow> ('a \<Rightarrow> Lexer \<Rightarrow> DescriptionError + 'b) \<Rightarrow> DescriptionError + 'b" where
  "andThen r k = (case r of Inl e \<Rightarrow> Inl e | Inr (a, lx) \<Rightarrow> k a lx)"

lemma andThen_cong [fundef_cong]:
  "r = r' \<Longrightarrow> (\<And>a lx. r' = Inr (a, lx) \<Longrightarrow> k a lx = k' a lx) \<Longrightarrow> andThen r k = andThen r' k'"
  by (auto simp: andThen_def split: sum.splits)

lemma andThen_Inr: "andThen r k = Inr y \<longleftrightarrow> (\<exists>a lx. r = Inr (a, lx) \<and> k a lx = Inr y)"
  by (auto simp: andThen_def split: sum.splits)

definition isKeyword :: "string \<Rightarrow> Lexer \<Rightarrow> DescriptionError + (bool \<times> Lexer)" where
  "isKeyword kw lx = andThen (peek 0 lx) (\<lambda>t lx1. Inr (kind t = TokIdent \<and> lexeme t = kw, lx1))"

definition expectKeyword :: "string \<Rightarrow> string \<Rightarrow> Lexer \<Rightarrow> DescriptionError + (Token \<times> Lexer)" where
  "expectKeyword filename kw lx =
     andThen (next_token lx) (\<lambda>t lx1.
       if kind t \<noteq> TokIdent \<or> lexeme t \<noteq> kw
       then Inl (errorAt filename t (''Expected keyword '' @ quoted kw))
       else Inr (t, lx1))"

definition parseValue ::
  "string \<Rightarrow> (string \<Rightarrow> 'd option) \<Rightarrow> Lexer \<Rightarrow> DescriptionError + ('d Value \<times> Lexer)" where
  "parseValue filename strtod lx =
     andThen (peek 0 lx) (\<lambda>t lx1.
       if kind t = TokNumber then
         andThen (next_token lx1) (\<lambda>t' lx2.
           case strtod (lexeme t') of
             None \<Rightarrow> Inl (errorAt filename t' ''Invalid numeric literal'')
           | Some v \<Rightarrow> Inr (VDouble v, lx2))
       else if kind t = TokString then
         andThen (next_token lx1) (\<lambda>t' lx2.
           case unquote (lexeme t') t' filename of
             Inl e \<Rightarrow> Inl e
           | Inr s \<Rightarrow> Inr (VString s, lx2))
       else if kind t = TokIdent \<and> (lexeme t = ''true'' \<or> lexeme t = ''false'') then
         andThen (next_token lx1) (\<lambda>t' lx2. Inr (VBool (lexeme t = ''true''), lx2))
       else Inl (errorAt filename t ''Expected value (number, string, or boolean)''))"

definition Properties_new :: "'d Properties" where
  "Properties_new = \<lparr>prop_args = [], prop_kwargs = []\<rparr>"

definition parseKeywordPropertyInto ::
  "string \<Rightarrow> (string \<Rightarrow> 'd option) \<Rightarrow> 'd Properties \<Rightarrow> Lexer \<Rightarrow> DescriptionError + ('d Properties \<times> Lexer)" where
  "parseKeywordPropertyInto filename strtod props lx =
     andThen (expect filename TokIdent ''Expected property name'' lx) (\<lambda>nameTok lx1.
     andThen (expect filename TokEquals (''Expected '' @ quoted ''='' @ '' in keyword property'') lx1) (\<lambda>eq lx2.
     andThen (parseValue filename strtod lx2) (\<lambda>v lx3.
       Inr (props\<lparr>prop_kwargs := prop_kwargs props @ [(lexeme nameTok, v)]\<rparr>, lx3))))"

definition kwargAhead :: "Lexer \<Rightarrow> DescriptionError + (bool \<times> Lexer)" where
  "kwargAhead lx =
     andThen (peek 0 lx) (\<lambda>t lx1.
       if kind t = TokIdent then andThen (peek 1 lx1) (\<lambda>t1 lx2. Inr (kind t1 = TokEquals, lx2))
       else Inr (False, lx1))"

lemma isKeyword_budget: "isKeyword kw lx = Inr (b, lx') \<Longrightarrow> budget lx' \<le> budget lx"
  by (auto simp: isKeyword_def andThen_Inr dest: peek_budget)

lemma expectKeyword_budget: "expectKeyword filename kw lx = Inr (t, lx') \<Longrightarrow> budget lx' < budget lx"
  by (auto simp: expectKeyword_def andThen_Inr split: if_splits dest: next_token_budget(2))

lemma parseValue_budget: "parseValue filename strtod lx = Inr (v, lx') \<Longrightarrow> budget lx' < budget lx"
proof -
  assume a: "parseValue filename strtod lx = Inr (v, lx')"
  then obtain t lx1 where p: "peek 0 lx = Inr (t, lx1)"
    by (auto simp: parseValue_def andThen_Inr)
  note n = peek_then_next [OF p]
  from a p n have k: "kind t \<noteq> TokEnd" and l: "lx' = lx1\<lparr>lx_lookahead := tl (lx_lookahead lx1)\<rparr>"
    by (auto simp: parseValue_def andThen_Inr split: if_splits option.splits sum.splits)
  from next_token_budget(2) [OF n k] peek_budget [OF p] l show ?thesis by simp
qed

lemma parseKeywordPropertyInto_budget:
  "parseKeywordPropertyInto filename strtod props lx = Inr (p, lx') \<Longrightarrow> budget lx' < budget lx"
proof -
  assume "parseKeywordPropertyInto filename strtod props lx = Inr (p, lx')"
  then obtain t lx1 e lx2 where a: "expect filename TokIdent ''Expected property name'' lx = Inr (t, lx1)"
    and b: "expect filename TokEquals (''Expected '' @ quoted ''='' @ '' in keyword property'') lx1 = Inr (e, lx2)"
    and c: "\<exists>v. parseValue filename strtod lx2 = Inr (v, lx')"
    by (auto simp: parseKeywordPropertyInto_def andThen_Inr)
  from c obtain v where "parseValue filename strtod lx2 = Inr (v, lx')" by blast
  from parseValue_budget [OF this] expect_budget(1) [OF a] expect_budget(1) [OF b]
  show ?thesis by simp
qed

lemma kwargAhead_budget: "kwargAhead lx = Inr (b, lx') \<Longrightarrow> budget lx' \<le> budget lx"
proof -
  assume a: "kwargAhead lx = Inr (b, lx')"
  then obtain t lx1 where p: "peek 0 lx = Inr (t, lx1)"
    by (auto simp: kwargAhead_def andThen_Inr)
  show ?thesis
  proof (cases "kind t = TokIdent")
    case True
    with a p obtain t1 where "peek 1 lx1 = Inr (t1, lx')"
      by (auto simp: kwargAhead_def andThen_Inr)
    from peek_budget [OF this] peek_budget [OF p] show ?thesis by simp
  next
    case False
    with a p peek_budget [OF p] show ?thesis by (auto simp: kwargAhead_def andThen_Inr)
  qed
qed

function kwargs_loop ::
  "string \<Rightarrow> (string \<Rightarrow> 'd option) \<Rightarrow> 'd Properties \<Rightarrow> Lexer \<Rightarrow> DescriptionError + ('d Properties \<times> Lexer)" where
  "kwargs_loop filename strtod props lx =
     andThen (match TokColon lx) (\<lambda>m lx1.
       if m then
         andThen (kwargAhead lx1) (\<lambda>k lx2.
           if \<not> k then
             andThen (peek 0 lx2) (\<lambda>t lx3.
               Inl (errorAt filename t (''Expected keyword property name=value after '' @ quoted '':'')))
           else
             andThen (parseKeywordPropertyInto filename strtod props lx2) (\<lambda>props' lx3.
               kwargs_loop filename strtod props' lx3))
       else Inr (props, lx1))"
  by pat_completeness auto
termination
proof (relation "measure (\<lambda>(filename, strtod, props, lx). budget lx)")
  show "wf (measure (\<lambda>(filename, strtod, props, lx). budget lx))" by simp
next
  fix filename :: string and strtod :: "string \<Rightarrow> 'd option" and props :: "'d Properties"
    and lx m lx1 k lx2 props' lx3
  assume "match TokColon lx = Inr (m, lx1)" "m" "kwargAhead lx1 = Inr (k, lx2)"
    "parseKeywordPropertyInto filename strtod props lx2 = Inr (props', lx3)"
  then have "budget lx3 < budget lx"
    using match_budget(1) [of TokColon lx m lx1] kwargAhead_budget [of lx1 k lx2]
      parseKeywordPropertyInto_budget [of filename strtod props lx2 props' lx3]
    by simp
  then show "((filename, strtod, props', lx3), (filename, strtod, props, lx))
      \<in> measure (\<lambda>(filename, strtod, props, lx). budget lx)" by simp
qed

declare kwargs_loop.simps [simp del]

lemma kwargs_loop_budget:
  "kwargs_loop filename strtod props lx = Inr (p, lx') \<Longrightarrow> budget lx' \<le> budget lx"
proof (induction filename strtod props lx rule: kwargs_loop.induct)
  case (1 filename strtod props lx)
  from "1.prems" obtain m lx1 where m: "match TokColon lx = Inr (m, lx1)"
    by (subst (asm) kwargs_loop.simps) (auto simp: andThen_Inr)
  note mb = match_budget(1) [OF m]
  show ?case
  proof (cases m)
    case False
    with "1.prems" m mb show ?thesis
      by (subst (asm) kwargs_loop.simps) (auto simp: andThen_Inr)
  next
    case True
    with "1.prems" m obtain k lx2 where k: "kwargAhead lx1 = Inr (k, lx2)"
      by (subst (asm) kwargs_loop.simps) (auto simp: andThen_Inr)
    with "1.prems" m True have kk: "k"
      by (subst (asm) kwargs_loop.simps) (auto simp: andThen_Inr split: if_splits)
    with "1.prems" m True k obtain props' lx3 where
      pk: "parseKeywordPropertyInto filename strtod props lx2 = Inr (props', lx3)"
      and r: "kwargs_loop filename strtod props' lx3 = Inr (p, lx')"
      by (subst (asm) kwargs_loop.simps) (auto simp: andThen_Inr)
    from "1.IH" [OF m True k _ pk r] kk have "budget lx' \<le> budget lx3" by simp
    with mb kwargAhead_budget [OF k] parseKeywordPropertyInto_budget [OF pk] show ?thesis by simp
  qed
qed

function args_loop ::
  "string \<Rightarrow> (string \<Rightarrow> 'd option) \<Rightarrow> 'd Properties \<Rightarrow> Lexer \<Rightarrow> DescriptionError + ('d Properties \<times> Lexer)" where
  "args_loop filename strtod props lx =
     andThen (match TokColon lx) (\<lambda>m lx1.
       if m then
         andThen (kwargAhead lx1) (\<lambda>k lx2.
           if k then
             andThen (parseKeywordPropertyInto filename strtod props lx2) (\<lambda>props' lx3.
               kwargs_loop filename strtod props' lx3)
           else
             andThen (parseValue filename strtod lx2) (\<lambda>v lx3.
               args_loop filename strtod (props\<lparr>prop_args := prop_args props @ [v]\<rparr>) lx3))
       else Inr (props, lx1))"
  by pat_completeness auto
termination
proof (relation "measure (\<lambda>(filename, strtod, props, lx). budget lx)")
  show "wf (measure (\<lambda>(filename, strtod, props, lx). budget lx))" by simp
next
  fix filename :: string and strtod :: "string \<Rightarrow> 'd option" and props :: "'d Properties"
    and lx m lx1 k lx2 v lx3
  assume "match TokColon lx = Inr (m, lx1)" "m" "kwargAhead lx1 = Inr (k, lx2)"
    "parseValue filename strtod lx2 = Inr (v, lx3)"
  then have "budget lx3 < budget lx"
    using match_budget(1) [of TokColon lx m lx1] kwargAhead_budget [of lx1 k lx2]
      parseValue_budget [of filename strtod lx2 v lx3]
    by simp
  then show "((filename, strtod, props\<lparr>prop_args := prop_args props @ [v]\<rparr>, lx3), (filename, strtod, props, lx))
      \<in> measure (\<lambda>(filename, strtod, props, lx). budget lx)" by simp
qed

declare args_loop.simps [simp del]

lemma args_loop_budget:
  "args_loop filename strtod props lx = Inr (p, lx') \<Longrightarrow> budget lx' \<le> budget lx"
proof (induction filename strtod props lx rule: args_loop.induct)
  case (1 filename strtod props lx)
  from "1.prems" obtain m lx1 where m: "match TokColon lx = Inr (m, lx1)"
    by (subst (asm) args_loop.simps) (auto simp: andThen_Inr)
  note mb = match_budget(1) [OF m]
  show ?case
  proof (cases m)
    case False
    with "1.prems" m mb show ?thesis
      by (subst (asm) args_loop.simps) (auto simp: andThen_Inr)
  next
    case True
    with "1.prems" m obtain k lx2 where k: "kwargAhead lx1 = Inr (k, lx2)"
      by (subst (asm) args_loop.simps) (auto simp: andThen_Inr)
    note kb = kwargAhead_budget [OF k]
    show ?thesis
    proof (cases k)
      case kt: True
      with "1.prems" m True k obtain props' lx3 where
        pk: "parseKeywordPropertyInto filename strtod props lx2 = Inr (props', lx3)"
        and r: "kwargs_loop filename strtod props' lx3 = Inr (p, lx')"
        by (subst (asm) args_loop.simps) (auto simp: andThen_Inr)
      from kwargs_loop_budget [OF r] parseKeywordPropertyInto_budget [OF pk] mb kb
      show ?thesis by simp
    next
      case kf: False
      with "1.prems" m True k obtain v lx3 where
        pv: "parseValue filename strtod lx2 = Inr (v, lx3)"
        and r: "args_loop filename strtod (props\<lparr>prop_args := prop_args props @ [v]\<rparr>) lx3 = Inr (p, lx')"
        by (subst (asm) args_loop.simps) (auto simp: andThen_Inr)
      from "1.IH" [OF m True k kf pv r] parseValue_budget [OF pv] mb kb show ?thesis by simp
    qed
  qed
qed

definition parseProperties ::
  "string \<Rightarrow> (string \<Rightarrow> 'd option) \<Rightarrow> Lexer \<Rightarrow> DescriptionError + ('d Properties \<times> Lexer)" where
  "parseProperties filename strtod lx =
     andThen (expect filename TokLParen (''Expected '' @ quoted ''('' @ '' to start property list'') lx) (\<lambda>lp lx1.
     andThen (kwargAhead lx1) (\<lambda>k lx2.
     andThen
       (if k then
          andThen (parseKeywordPropertyInto filename strtod Properties_new lx2) (\<lambda>props lx3.
            kwargs_loop filename strtod props lx3)
        else
          andThen (peek 0 lx2) (\<lambda>t lx3.
            if kind t \<noteq> TokRParen then
              andThen (parseValue filename strtod lx3) (\<lambda>v lx4.
                args_loop filename strtod (Properties_new\<lparr>prop_args := [v]\<rparr>) lx4)
            else Inr (Properties_new, lx3)))
       (\<lambda>props lx5.
     andThen (expect filename TokRParen (''Expected '' @ quoted '')'' @ '' to end property list'') lx5) (\<lambda>rp lx6.
       Inr (props, lx6)))))"

lemma parseProperties_budget:
  "parseProperties filename strtod lx = Inr (p, lx') \<Longrightarrow> budget lx' < budget lx"
proof -
  assume a: "parseProperties filename strtod lx = Inr (p, lx')"
  then obtain lp lx1 k lx2 props lx5 rp where
    e1: "expect filename TokLParen (''Expected '' @ quoted ''('' @ '' to start property list'') lx = Inr (lp, lx1)"
    and k: "kwargAhead lx1 = Inr (k, lx2)"
    and mid: "(if k then
          andThen (parseKeywordPropertyInto filename strtod Properties_new lx2) (\<lambda>props lx3.
            kwargs_loop filename strtod props lx3)
        else
          andThen (peek 0 lx2) (\<lambda>t lx3.
            if kind t \<noteq> TokRParen then
              andThen (parseValue filename strtod lx3) (\<lambda>v lx4.
                args_loop filename strtod (Properties_new\<lparr>prop_args := [v]\<rparr>) lx4)
            else Inr (Properties_new, lx3))) = Inr (props, lx5)"
    and e2: "expect filename TokRParen (''Expected '' @ quoted '')'' @ '' to end property list'') lx5 = Inr (rp, lx')"
    by (auto simp: parseProperties_def andThen_Inr)
  have "budget lx5 \<le> budget lx2"
  proof (cases k)
    case True
    with mid obtain q lx3 where pk: "parseKeywordPropertyInto filename strtod Properties_new lx2 = Inr (q, lx3)"
      and r: "kwargs_loop filename strtod q lx3 = Inr (props, lx5)"
      by (auto simp: andThen_Inr)
    from kwargs_loop_budget [OF r] parseKeywordPropertyInto_budget [OF pk] show ?thesis by simp
  next
    case False
    with mid obtain t lx3 where p: "peek 0 lx2 = Inr (t, lx3)"
      by (auto simp: andThen_Inr)
    show ?thesis
    proof (cases "kind t \<noteq> TokRParen")
      case True
      with mid False p obtain v lx4 where pv: "parseValue filename strtod lx3 = Inr (v, lx4)"
        and r: "args_loop filename strtod (Properties_new\<lparr>prop_args := [v]\<rparr>) lx4 = Inr (props, lx5)"
        by (auto simp: andThen_Inr)
      from args_loop_budget [OF r] parseValue_budget [OF pv] peek_budget [OF p] show ?thesis by simp
    next
      case f: False
      with mid False p peek_budget [OF p] show ?thesis by (auto simp: andThen_Inr)
    qed
  qed
  with expect_budget(2) [OF e1] kwargAhead_budget [OF k] expect_budget(1) [OF e2] show ?thesis by simp
qed

lemma parseOptionalArray_budget:
  "parseOptionalArray filename lx = Inr (a, lx') \<Longrightarrow> budget lx' \<le> budget lx"
proof -
  assume a: "parseOptionalArray filename lx = Inr (a, lx')"
  then obtain m lx1 where m: "match TokLBrack lx = Inr (m, lx1)"
    by (auto simp: parseOptionalArray_def split: sum.splits prod.splits)
  note mb = match_budget(1) [OF m]
  show ?thesis
  proof (cases m)
    case False
    with a m mb show ?thesis by (auto simp: parseOptionalArray_def)
  next
    case True
    with a m obtain t lx2 where p: "peek 0 lx1 = Inr (t, lx2)"
      by (auto simp: parseOptionalArray_def split: sum.splits prod.splits)
    note pb = peek_budget [OF p]
    show ?thesis
    proof (cases "kind t = TokNumber")
      case kn: True
      with a m True p obtain t3 lx3 t4 where n: "next_token lx2 = Inr (t3, lx3)"
        and e: "expect filename TokRBrack (''Expected '' @ [CHR 0x27, CHR '']'', CHR 0x27] @ '' after array specifier'') lx3 = Inr (t4, lx')"
        by (auto simp: parseOptionalArray_def split: sum.splits prod.splits if_splits)
      from next_token_budget(1) [OF n] expect_budget(1) [OF e] mb pb show ?thesis by simp
    next
      case kf: False
      with a m True p obtain t4 where
        e: "expect filename TokRBrack (''Expected '' @ [CHR 0x27, CHR '']'', CHR 0x27] @ '' after array specifier'') lx2 = Inr (t4, lx')"
        by (auto simp: parseOptionalArray_def split: sum.splits prod.splits if_splits)
      from expect_budget(1) [OF e] mb pb show ?thesis by simp
    qed
  qed
qed

definition parseField ::
  "string \<Rightarrow> (string \<Rightarrow> 'd option) \<Rightarrow> Lexer \<Rightarrow> DescriptionError + ('d Field \<times> Lexer)" where
  "parseField filename strtod lx =
     andThen (expect filename TokIdent ''Expected field type'' lx) (\<lambda>typeTok lx1.
     andThen (parseOptionalArray filename lx1) (\<lambda>arr lx2.
     andThen (expect filename TokIdent ''Expected field name'' lx2) (\<lambda>nameTok lx3.
     andThen (peek 0 lx3) (\<lambda>t lx4.
     andThen (if kind t = TokLParen
              then andThen (parseProperties filename strtod lx4) (\<lambda>p lx5. Inr (Some p, lx5))
              else Inr (None, lx4)) (\<lambda>props lx5.
     andThen (match TokEquals lx5) (\<lambda>m lx6.
     andThen (if m
              then andThen (parseValue filename strtod lx6) (\<lambda>v lx7. Inr (Some v, lx7))
              else Inr (None, lx6)) (\<lambda>dv lx7.
     andThen (expect filename TokSemicolon (''Expected '' @ quoted '';'' @ '' after field'') lx7) (\<lambda>semi lx8.
       Inr (\<lparr>Field_type = lexeme typeTok, Field_array = arr, Field_name = lexeme nameTok,
              Field_properties = props, Field_default_value = dv\<rparr>, lx8)))))))))"

lemma parseField_budget:
  "parseField filename strtod lx = Inr (f, lx') \<Longrightarrow> budget lx' < budget lx"
proof -
  assume a: "parseField filename strtod lx = Inr (f, lx')"
  then obtain typeTok lx1 arr lx2 nameTok lx3 t lx4 props lx5 m lx6 dv lx7 semi where
    e1: "expect filename TokIdent ''Expected field type'' lx = Inr (typeTok, lx1)"
    and oa: "parseOptionalArray filename lx1 = Inr (arr, lx2)"
    and e2: "expect filename TokIdent ''Expected field name'' lx2 = Inr (nameTok, lx3)"
    and p: "peek 0 lx3 = Inr (t, lx4)"
    and pr: "(if kind t = TokLParen
              then andThen (parseProperties filename strtod lx4) (\<lambda>p lx5. Inr (Some p, lx5))
              else Inr (None, lx4)) = Inr (props, lx5)"
    and m: "match TokEquals lx5 = Inr (m, lx6)"
    and dv: "(if m
              then andThen (parseValue filename strtod lx6) (\<lambda>v lx7. Inr (Some v, lx7))
              else Inr (None, lx6)) = Inr (dv, lx7)"
    and e3: "expect filename TokSemicolon (''Expected '' @ quoted '';'' @ '' after field'') lx7 = Inr (semi, lx')"
    by (auto simp: parseField_def andThen_Inr)
  from pr have b5: "budget lx5 \<le> budget lx4"
    by (auto simp: andThen_Inr split: if_splits dest: parseProperties_budget)
  from dv have b7: "budget lx7 \<le> budget lx6"
    by (auto simp: andThen_Inr split: if_splits dest: parseValue_budget)
  from expect_budget(2) [OF e1] parseOptionalArray_budget [OF oa] expect_budget(1) [OF e2]
    peek_budget [OF p] b5 match_budget(1) [OF m] b7 expect_budget(1) [OF e3]
  show ?thesis by simp
qed

function fields_loop ::
  "string \<Rightarrow> (string \<Rightarrow> 'd option) \<Rightarrow> Lexer \<Rightarrow> 'd Field list \<Rightarrow> DescriptionError + ('d Field list \<times> Lexer)" where
  "fields_loop filename strtod lx acc =
     andThen (peek 0 lx) (\<lambda>t lx1.
       if kind t \<noteq> TokRBrace then
         (if kind t = TokEnd
          then Inl (errorAt filename t (''Unterminated field list; expected '' @ quoted ''}''))
          else andThen (parseField filename strtod lx1) (\<lambda>f lx2.
                 fields_loop filename strtod lx2 (acc @ [f])))
       else Inr (acc, lx1))"
  by pat_completeness auto
termination
proof (relation "measure (\<lambda>(filename, strtod, lx, acc). budget lx)")
  show "wf (measure (\<lambda>(filename, strtod, lx, acc). budget lx))" by simp
next
  fix filename :: string and strtod :: "string \<Rightarrow> 'd option" and acc :: "'d Field list"
    and lx t lx1 f lx2
  assume "peek 0 lx = Inr (t, lx1)" "parseField filename strtod lx1 = Inr (f, lx2)"
  then have "budget lx2 < budget lx"
    using peek_budget [of 0 lx t lx1] parseField_budget [of filename strtod lx1 f lx2] by simp
  then show "((filename, strtod, lx2, acc @ [f]), (filename, strtod, lx, acc))
      \<in> measure (\<lambda>(filename, strtod, lx, acc). budget lx)" by simp
qed

declare fields_loop.simps [simp del]

lemma fields_loop_budget:
  "fields_loop filename strtod lx acc = Inr (fs, lx') \<Longrightarrow> budget lx' \<le> budget lx"
proof (induction filename strtod lx acc rule: fields_loop.induct)
  case (1 filename strtod lx acc)
  from "1.prems" obtain t lx1 where p: "peek 0 lx = Inr (t, lx1)"
    by (subst (asm) fields_loop.simps) (auto simp: andThen_Inr)
  note pb = peek_budget [OF p]
  show ?case
  proof (cases "kind t \<noteq> TokRBrace")
    case False
    with "1.prems" p pb show ?thesis
      by (subst (asm) fields_loop.simps) (auto simp: andThen_Inr)
  next
    case True
    with "1.prems" p have ne: "kind t \<noteq> TokEnd"
      by (subst (asm) fields_loop.simps) (auto simp: andThen_Inr split: if_splits)
    with "1.prems" p True obtain f lx2 where pf: "parseField filename strtod lx1 = Inr (f, lx2)"
      and r: "fields_loop filename strtod lx2 (acc @ [f]) = Inr (fs, lx')"
      by (subst (asm) fields_loop.simps) (auto simp: andThen_Inr)
    from "1.IH" [OF p True ne pf r] parseField_budget [OF pf] pb show ?thesis by simp
  qed
qed

definition parseFieldList ::
  "string \<Rightarrow> (string \<Rightarrow> 'd option) \<Rightarrow> Lexer \<Rightarrow> DescriptionError + ('d Field list \<times> Lexer)" where
  "parseFieldList filename strtod lx =
     andThen (expect filename TokLBrace (''Expected '' @ quoted ''{'' @ '' to start field list'') lx) (\<lambda>lb lx1.
     andThen (fields_loop filename strtod lx1 []) (\<lambda>fl lx2.
     andThen (expect filename TokRBrace (''Expected '' @ quoted ''}'' @ '' to end field list'') lx2) (\<lambda>rb lx3.
       Inr (fl, lx3))))"

lemma parseFieldList_budget:
  "parseFieldList filename strtod lx = Inr (fl, lx') \<Longrightarrow> budget lx' < budget lx"
proof -
  assume "parseFieldList filename strtod lx = Inr (fl, lx')"
  then obtain lb lx1 lx2 rb where
    e1: "expect filename TokLBrace (''Expected '' @ quoted ''{'' @ '' to start field list'') lx = Inr (lb, lx1)"
    and l: "fields_loop filename strtod lx1 [] = Inr (fl, lx2)"
    and e2: "expect filename TokRBrace (''Expected '' @ quoted ''}'' @ '' to end field list'') lx2 = Inr (rb, lx')"
    by (auto simp: parseFieldList_def andThen_Inr)
  from expect_budget(2) [OF e1] fields_loop_budget [OF l] expect_budget(1) [OF e2] show ?thesis by simp
qed

definition within :: "DescriptionError + ('a \<times> Lexer) \<Rightarrow> nat \<Rightarrow> bool" where
  "within r n = (case r of Inl e \<Rightarrow> True | Inr (a, lx') \<Rightarrow> budget lx' \<le> n)"

lemma within_Inl: "within (Inl e) n"
  by (simp add: within_def)

lemma within_Inr: "budget lx \<le> n \<Longrightarrow> within (Inr (a, lx)) n"
  by (simp add: within_def)

lemma within_result: "within r n \<Longrightarrow> r = Inr (a, lx') \<Longrightarrow> budget lx' \<le> n"
  by (simp add: within_def)

lemma within_andThen:
  assumes "within r n" and "\<And>a lx1. r = Inr (a, lx1) \<Longrightarrow> budget lx1 \<le> n \<Longrightarrow> within (k a lx1) n"
  shows "within (andThen r k) n"
proof (cases r)
  case (Inl e)
  then show ?thesis by (simp add: andThen_def within_def)
next
  case (Inr p)
  obtain a lx1 where p: "p = (a, lx1)" by (cases p)
  with Inr assms(1) have "budget lx1 \<le> n" by (simp add: within_def)
  from assms(2) [OF _ this] Inr p show ?thesis by (simp add: andThen_def)
qed

lemma within_if: "(c \<Longrightarrow> within x n) \<Longrightarrow> (\<not> c \<Longrightarrow> within y n) \<Longrightarrow> within (if c then x else y) n"
  by simp

lemma within_case_sum:
  "(\<And>v. u = Inr v \<Longrightarrow> within (f v) n) \<Longrightarrow> within (case u of Inl e \<Rightarrow> Inl e | Inr v \<Rightarrow> f v) n"
  by (cases u) (simp_all add: within_def)

lemma within_case_option:
  "within x n \<Longrightarrow> (\<And>v. within (f v) n) \<Longrightarrow> within (case u of None \<Rightarrow> x | Some v \<Rightarrow> f v) n"
  by (simp split: option.splits)

lemma within_peek: "budget lx \<le> n \<Longrightarrow> within (peek k lx) n"
  using peek_budget [of k lx] by (fastforce simp: within_def split: sum.splits)

lemma within_next_token: "budget lx \<le> n \<Longrightarrow> within (next_token lx) n"
  using next_token_budget(1) [of lx] by (fastforce simp: within_def split: sum.splits)

lemma within_expect: "budget lx \<le> n \<Longrightarrow> within (expect filename k msg lx) n"
  using expect_budget(1) [of filename k msg lx] by (fastforce simp: within_def split: sum.splits)

lemma within_match: "budget lx \<le> n \<Longrightarrow> within (match k lx) n"
  using match_budget(1) [of k lx] by (fastforce simp: within_def split: sum.splits)

lemma within_isKeyword: "budget lx \<le> n \<Longrightarrow> within (isKeyword kw lx) n"
  using isKeyword_budget [of kw lx] by (fastforce simp: within_def split: sum.splits)

lemma within_expectKeyword: "budget lx \<le> n \<Longrightarrow> within (expectKeyword filename kw lx) n"
  using expectKeyword_budget [of filename kw lx] by (fastforce simp: within_def split: sum.splits)

lemma within_parseValue: "budget lx \<le> n \<Longrightarrow> within (parseValue filename strtod lx) n"
  using parseValue_budget [of filename strtod lx] by (fastforce simp: within_def split: sum.splits)

lemma within_parseProperties: "budget lx \<le> n \<Longrightarrow> within (parseProperties filename strtod lx) n"
  using parseProperties_budget [of filename strtod lx] by (fastforce simp: within_def split: sum.splits)

lemma within_parseFieldList: "budget lx \<le> n \<Longrightarrow> within (parseFieldList filename strtod lx) n"
  using parseFieldList_budget [of filename strtod lx] by (fastforce simp: within_def split: sum.splits)

lemmas within_intros =
  within_Inl within_Inr within_andThen within_if within_case_sum within_case_option
  within_peek within_next_token within_expect within_match within_isKeyword within_expectKeyword
  within_parseValue within_parseProperties within_parseFieldList

function enum_loop :: "string \<Rightarrow> Lexer \<Rightarrow> string list \<Rightarrow> DescriptionError + (string list \<times> Lexer)" where
  "enum_loop filename lx acc =
     andThen (match TokComma lx) (\<lambda>m lx1.
       if m then
         andThen (expect filename TokIdent ''Expected enumerate value'' lx1) (\<lambda>t lx2.
           enum_loop filename lx2 (acc @ [lexeme t]))
       else Inr (acc, lx1))"
  by pat_completeness auto
termination
proof (relation "measure (\<lambda>(filename, lx, acc). budget lx)")
  show "wf (measure (\<lambda>(filename, lx, acc). budget lx))" by simp
next
  fix filename :: string and acc :: "string list" and lx m lx1 t lx2
  assume "match TokComma lx = Inr (m, lx1)" "expect filename TokIdent ''Expected enumerate value'' lx1 = Inr (t, lx2)"
  then have "budget lx2 < budget lx"
    using match_budget(1) [of TokComma lx m lx1]
      expect_budget(2) [of filename TokIdent "''Expected enumerate value''" lx1 t lx2] by simp
  then show "((filename, lx2, acc @ [lexeme t]), (filename, lx, acc))
      \<in> measure (\<lambda>(filename, lx, acc). budget lx)" by simp
qed

declare enum_loop.simps [simp del]

definition parseEnumerate :: "string \<Rightarrow> Lexer \<Rightarrow> DescriptionError + (Enumerate \<times> Lexer)" where
  "parseEnumerate filename lx =
     andThen (expectKeyword filename ''enumerate'' lx) (\<lambda>kw lx1.
     andThen (expect filename TokIdent ''Expected enumerate name'' lx1) (\<lambda>nameTok lx2.
     andThen (expect filename TokLBrace (''Expected '' @ quoted ''{'' @ '' after enumerate name'') lx2) (\<lambda>lb lx3.
     andThen (peek 0 lx3) (\<lambda>t lx4.
     andThen (if kind t \<noteq> TokRBrace
              then andThen (expect filename TokIdent ''Expected enumerate value'' lx4) (\<lambda>v lx5.
                     enum_loop filename lx5 [lexeme v])
              else Inr ([], lx4)) (\<lambda>vals lx6.
     andThen (expect filename TokRBrace (''Expected '' @ quoted ''}'' @ '' to end enumerate'') lx6) (\<lambda>rb lx7.
       Inr (\<lparr>Enumerate_name = lexeme nameTok, Enumerate_values = vals\<rparr>, lx7)))))))"

definition parseInclude ::
  "string \<Rightarrow> (string \<Rightarrow> 'd option) \<Rightarrow> Lexer \<Rightarrow> DescriptionError + ('d Include \<times> Lexer)" where
  "parseInclude filename strtod lx =
     andThen (expectKeyword filename ''include'' lx) (\<lambda>kw lx1.
     andThen (expect filename TokString (''Expected quoted filename after '' @ quoted ''include'') lx1) (\<lambda>fileTok lx2.
       case unquote (lexeme fileTok) fileTok filename of
         Inl e \<Rightarrow> Inl e
       | Inr name \<Rightarrow>
           andThen (peek 0 lx2) (\<lambda>t lx3.
           andThen (if kind t = TokLParen
                    then andThen (parseProperties filename strtod lx3) (\<lambda>p lx4. Inr (Some p, lx4))
                    else Inr (None, lx3)) (\<lambda>props lx4.
           andThen (expect filename TokSemicolon (''Expected '' @ quoted '';'' @ '' after include'') lx4) (\<lambda>semi lx5.
             Inr (\<lparr>Include_name = name, Include_properties = props\<rparr>, lx5))))))"

definition parseImport :: "string \<Rightarrow> Lexer \<Rightarrow> DescriptionError + (string \<times> Lexer)" where
  "parseImport filename lx =
     andThen (expectKeyword filename ''import'' lx) (\<lambda>kw lx1.
     andThen (expect filename TokString (''Expected quoted filename after '' @ quoted ''import'') lx1) (\<lambda>fileTok lx2.
       case unquote (lexeme fileTok) fileTok filename of
         Inl e \<Rightarrow> Inl e
       | Inr name \<Rightarrow>
           andThen (expect filename TokSemicolon (''Expected '' @ quoted '';'' @ '' after import'') lx2) (\<lambda>semi lx3.
             Inr (name, lx3))))"

function sources_loop :: "string \<Rightarrow> Lexer \<Rightarrow> string list \<Rightarrow> DescriptionError + (string list \<times> Lexer)" where
  "sources_loop filename lx acc =
     andThen (peek 0 lx) (\<lambda>t lx1.
       if kind t = TokString then
         andThen (next_token lx1) (\<lambda>s lx2.
           case unquote (lexeme s) s filename of
             Inl e \<Rightarrow> Inl e
           | Inr src \<Rightarrow> sources_loop filename lx2 (acc @ [src]))
       else Inr (acc, lx1))"
  by pat_completeness auto
termination
proof (relation "measure (\<lambda>(filename, lx, acc). budget lx)")
  show "wf (measure (\<lambda>(filename, lx, acc). budget lx))" by simp
next
  fix filename :: string and acc :: "string list" and lx t lx1 s lx2 src
  assume p: "peek 0 lx = Inr (t, lx1)" and k: "kind t = TokString" and n: "next_token lx1 = Inr (s, lx2)"
  from peek_then_next [OF p] n have "s = t" by simp
  with k have "kind s \<noteq> TokEnd" by simp
  from next_token_budget(2) [OF n this] peek_budget [OF p] have "budget lx2 < budget lx" by simp
  then show "((filename, lx2, acc @ [src]), (filename, lx, acc))
      \<in> measure (\<lambda>(filename, lx, acc). budget lx)" by simp
qed

declare sources_loop.simps [simp del]

definition parseExternalLanguage :: "string \<Rightarrow> Lexer \<Rightarrow> DescriptionError + (ExternalLanguage \<times> Lexer)" where
  "parseExternalLanguage filename lx =
     andThen (expectKeyword filename ''language'' lx) (\<lambda>kw lx1.
     andThen (expect filename TokIdent (''Expected language name after '' @ quoted ''language'') lx1) (\<lambda>langTok lx2.
     andThen (expect filename TokString ''Expected container string after language name'' lx2) (\<lambda>contTok lx3.
       case unquote (lexeme contTok) contTok filename of
         Inl e \<Rightarrow> Inl e
       | Inr cont \<Rightarrow>
     andThen (isKeyword ''from'' lx3) (\<lambda>isFrom lx4.
     andThen (if isFrom then
                andThen (next_token lx4) (\<lambda>fromTok lx5.
                andThen (peek 0 lx5) (\<lambda>t lx6.
                  if kind t \<noteq> TokString
                  then Inl (errorAt filename t (''Expected at least one source string after '' @ quoted ''from''))
                  else sources_loop filename lx6 []))
              else Inr ([], lx4)) (\<lambda>srcs lx7.
     andThen (isKeyword ''default'' lx7) (\<lambda>isDefault lx8.
     andThen (if isDefault then
                andThen (next_token lx8) (\<lambda>defTok lx9.
                andThen (expect filename TokString (''Expected default string after '' @ quoted ''default'') lx9) (\<lambda>d lx10.
                  case unquote (lexeme d) d filename of
                    Inl e \<Rightarrow> Inl e
                  | Inr dv \<Rightarrow> Inr (Some dv, lx10)))
              else Inr (None, lx8)) (\<lambda>dflt lx11.
     andThen (isKeyword ''read'' lx11) (\<lambda>isRead lx12.
     andThen (if isRead then
                andThen (next_token lx12) (\<lambda>readTok lx13.
                andThen (expect filename TokString (''Expected read string after '' @ quoted ''read'') lx13) (\<lambda>r lx14.
                  case unquote (lexeme r) r filename of
                    Inl e \<Rightarrow> Inl e
                  | Inr rv \<Rightarrow>
                andThen (expectKeyword filename ''write'' lx14) (\<lambda>writeTok lx15.
                andThen (expect filename TokString (''Expected write string after '' @ quoted ''write'') lx15) (\<lambda>w lx16.
                  case unquote (lexeme w) w filename of
                    Inl e \<Rightarrow> Inl e
                  | Inr wv \<Rightarrow> Inr ((Some rv, Some wv), lx16)))))
              else Inr ((None, None), lx12)) (\<lambda>rw lx17.
     andThen (expect filename TokSemicolon (''Expected '' @ quoted '';'' @ '' after language entry'') lx17) (\<lambda>semi lx18.
       Inr (\<lparr>language = lexeme langTok, container = cont, el_sources = srcs, deflt = dflt,
              el_read = fst rw, el_write = snd rw\<rparr>, lx18)))))))))))"


lemma enum_loop_within: "budget lx \<le> n \<Longrightarrow> within (enum_loop filename lx acc) n"
proof (induction filename lx acc rule: enum_loop.induct)
  case (1 filename lx acc)
  show ?case
    by (subst enum_loop.simps)
       (intro within_intros "1.prems"; (assumption | (rule "1.IH"; assumption)))
qed

lemma sources_loop_within: "budget lx \<le> n \<Longrightarrow> within (sources_loop filename lx acc) n"
proof (induction filename lx acc rule: sources_loop.induct)
  case (1 filename lx acc)
  show ?case
    by (subst sources_loop.simps)
       (intro within_intros "1.prems"; (assumption | (rule "1.IH"; assumption)))
qed

lemma parseExternalLanguage_within:
  "budget lx \<le> n \<Longrightarrow> within (parseExternalLanguage filename lx) n"
  unfolding parseExternalLanguage_def
  by (intro within_intros sources_loop_within; assumption)

lemma strict_start:
  assumes "andThen r k = Inr (b, lx')"
    and "\<And>a lx1. r = Inr (a, lx1) \<Longrightarrow> budget lx1 < n"
    and "\<And>a lx1. within (k a lx1) (budget lx1)"
  shows "budget lx' < n"
proof -
  from assms(1) obtain a lx1 where r: "r = Inr (a, lx1)" and k: "k a lx1 = Inr (b, lx')"
    by (auto simp: andThen_Inr)
  from within_result [OF assms(3) k] assms(2) [OF r] show ?thesis by simp
qed

lemma parseExternalLanguage_budget:
  assumes "parseExternalLanguage filename lx = Inr (el, lx')"
  shows "budget lx' < budget lx"
  using assms unfolding parseExternalLanguage_def
  apply (rule strict_start)
   apply (erule expectKeyword_budget)
  apply (intro within_intros sources_loop_within order_refl)
  apply assumption+
  done

function languages_loop ::
  "string \<Rightarrow> Lexer \<Rightarrow> ExternalLanguage list \<Rightarrow> DescriptionError + (ExternalLanguage list \<times> Lexer)" where
  "languages_loop filename lx acc =
     andThen (peek 0 lx) (\<lambda>t lx1.
       if kind t \<noteq> TokRParen then
         (if kind t = TokEnd
          then Inl (errorAt filename t (''Unterminated external language list; expected '' @ quoted '')''))
          else andThen (isKeyword ''language'' lx1) (\<lambda>isLang lx2.
                 if \<not> isLang
                 then Inl (errorAt filename t
                        (''Expected '' @ quoted ''language'' @ '' entry inside external language list''))
                 else andThen (parseExternalLanguage filename lx2) (\<lambda>el lx3.
                        languages_loop filename lx3 (acc @ [el]))))
       else Inr (acc, lx1))"
  by pat_completeness auto
termination
proof (relation "measure (\<lambda>(filename, lx, acc). budget lx)")
  show "wf (measure (\<lambda>(filename, lx, acc). budget lx))" by simp
next
  fix filename :: string and acc :: "ExternalLanguage list" and lx t lx1 isLang lx2 el lx3
  assume "peek 0 lx = Inr (t, lx1)" "isKeyword ''language'' lx1 = Inr (isLang, lx2)"
    "parseExternalLanguage filename lx2 = Inr (el, lx3)"
  then have "budget lx3 < budget lx"
    using peek_budget [of 0 lx t lx1] isKeyword_budget [of "''language''" lx1 isLang lx2]
      parseExternalLanguage_budget [of filename lx2 el lx3] by simp
  then show "((filename, lx3, acc @ [el]), (filename, lx, acc))
      \<in> measure (\<lambda>(filename, lx, acc). budget lx)" by simp
qed

declare languages_loop.simps [simp del]

lemma languages_loop_within: "budget lx \<le> n \<Longrightarrow> within (languages_loop filename lx acc) n"
proof (induction filename lx acc rule: languages_loop.induct)
  case (1 filename lx acc)
  show ?case
    by (subst languages_loop.simps)
       (intro within_intros parseExternalLanguage_within "1.prems";
        (assumption | (rule "1.IH"; assumption)))
qed

definition parseExternalLanguageList ::
  "string \<Rightarrow> Lexer \<Rightarrow> DescriptionError + (ExternalLanguage list \<times> Lexer)" where
  "parseExternalLanguageList filename lx =
     andThen (expect filename TokLParen (''Expected '' @ quoted ''('' @ '' to start external language list'') lx) (\<lambda>lp lx1.
     andThen (languages_loop filename lx1 []) (\<lambda>langs lx2.
     andThen (expect filename TokRParen (''Expected '' @ quoted '')'' @ '' to end external language list'') lx2) (\<lambda>rp lx3.
       Inr (langs, lx3))))"

definition parseExternal :: "string \<Rightarrow> Lexer \<Rightarrow> DescriptionError + (External \<times> Lexer)" where
  "parseExternal filename lx =
     andThen (expectKeyword filename ''external'' lx) (\<lambda>kw lx1.
     andThen (expect filename TokIdent ''Expected external structure name'' lx1) (\<lambda>nameTok lx2.
     andThen (parseExternalLanguageList filename lx2) (\<lambda>langs lx3.
     andThen (expect filename TokSemicolon (''Expected '' @ quoted '';'' @ '' after external'') lx3) (\<lambda>semi lx4.
       Inr (\<lparr>External_name = lexeme nameTok, languages = langs\<rparr>, lx4)))))"

definition parseStructure ::
  "string \<Rightarrow> (string \<Rightarrow> 'd option) \<Rightarrow> Lexer \<Rightarrow> DescriptionError + ('d Structure \<times> Lexer)" where
  "parseStructure filename strtod lx =
     andThen (expectKeyword filename ''structure'' lx) (\<lambda>kw lx1.
     andThen (expect filename TokIdent ''Expected structure name'' lx1) (\<lambda>nameTok lx2.
     andThen (parseFieldList filename strtod lx2) (\<lambda>fl lx3.
       Inr (\<lparr>Structure_name = lexeme nameTok, Structure_fields = fl\<rparr>, lx3))))"

definition parseMessage ::
  "string \<Rightarrow> (string \<Rightarrow> 'd option) \<Rightarrow> Lexer \<Rightarrow> DescriptionError + ('d Message \<times> Lexer)" where
  "parseMessage filename strtod lx =
     andThen (expectKeyword filename ''message'' lx) (\<lambda>kw lx1.
     andThen (expect filename TokIdent ''Expected message name'' lx1) (\<lambda>nameTok lx2.
     andThen (parseFieldList filename strtod lx2) (\<lambda>fl lx3.
       Inr (\<lparr>Message_name = lexeme nameTok, Message_fields = fl\<rparr>, lx3))))"

function namespace_loop :: "string \<Rightarrow> Lexer \<Rightarrow> string \<Rightarrow> DescriptionError + (string \<times> Lexer)" where
  "namespace_loop filename lx name =
     andThen (match TokDot lx) (\<lambda>m lx1.
       if m then
         andThen (expect filename TokIdent (''Expected namespace segment after '' @ quoted ''.'') lx1) (\<lambda>part lx2.
           namespace_loop filename lx2 (name @ ''.'' @ lexeme part))
       else Inr (name, lx1))"
  by pat_completeness auto
termination
proof (relation "measure (\<lambda>(filename, lx, name). budget lx)")
  show "wf (measure (\<lambda>(filename, lx, name). budget lx))" by simp
next
  fix filename :: string and name :: string and lx m lx1 part lx2
  assume "match TokDot lx = Inr (m, lx1)"
    "expect filename TokIdent (''Expected namespace segment after '' @ quoted ''.'') lx1 = Inr (part, lx2)"
  then have "budget lx2 < budget lx"
    using match_budget(1) [of TokDot lx m lx1]
      expect_budget(2) [of filename TokIdent "''Expected namespace segment after '' @ quoted ''.''" lx1 part lx2]
    by simp
  then show "((filename, lx2, name @ ''.'' @ lexeme part), (filename, lx, name))
      \<in> measure (\<lambda>(filename, lx, name). budget lx)" by simp
qed

declare namespace_loop.simps [simp del]

lemma namespace_loop_within: "budget lx \<le> n \<Longrightarrow> within (namespace_loop filename lx name) n"
proof (induction filename lx name rule: namespace_loop.induct)
  case (1 filename lx name)
  show ?case
    by (subst namespace_loop.simps)
       (intro within_intros "1.prems"; (assumption | (rule "1.IH"; assumption)))
qed

definition parseNamespace :: "string \<Rightarrow> Lexer \<Rightarrow> DescriptionError + (string \<times> Lexer)" where
  "parseNamespace filename lx =
     andThen (expectKeyword filename ''namespace'' lx) (\<lambda>kw lx1.
     andThen (expect filename TokIdent ''Expected namespace name'' lx1) (\<lambda>first lx2.
     andThen (namespace_loop filename lx2 (lexeme first)) (\<lambda>name lx3.
     andThen (expect filename TokSemicolon (''Expected '' @ quoted '';'' @ '' after namespace'') lx3) (\<lambda>semi lx4.
       Inr (name, lx4)))))"

definition parseDecl ::
  "string \<Rightarrow> (string \<Rightarrow> 'd option) \<Rightarrow> Lexer \<Rightarrow> DescriptionError + ('d Decl \<times> Lexer)" where
  "parseDecl filename strtod lx =
     andThen (peek 0 lx) (\<lambda>t lx1.
       if kind t \<noteq> TokIdent then Inl (errorAt filename t ''Expected a declaration keyword'')
       else if lexeme t = ''enumerate'' then andThen (parseEnumerate filename lx1) (\<lambda>d lx2. Inr (DEnumerate d, lx2))
       else if lexeme t = ''include'' then andThen (parseInclude filename strtod lx1) (\<lambda>d lx2. Inr (DInclude d, lx2))
       else if lexeme t = ''import'' then andThen (parseImport filename lx1) (\<lambda>d lx2. Inr (DImport d, lx2))
       else if lexeme t = ''external'' then andThen (parseExternal filename lx1) (\<lambda>d lx2. Inr (DExternal d, lx2))
       else if lexeme t = ''structure'' then andThen (parseStructure filename strtod lx1) (\<lambda>d lx2. Inr (DStructure d, lx2))
       else if lexeme t = ''message'' then andThen (parseMessage filename strtod lx1) (\<lambda>d lx2. Inr (DMessage d, lx2))
       else Inl (errorAt filename t (''Unknown declaration keyword: '' @ lexeme t)))"

lemma parseEnumerate_budget:
  assumes "parseEnumerate filename lx = Inr (d, lx')"
  shows "budget lx' < budget lx"
  using assms unfolding parseEnumerate_def
  apply (rule strict_start)
   apply (erule expectKeyword_budget)
  apply (intro within_intros enum_loop_within order_refl)
  apply assumption+
  done

lemma parseInclude_budget:
  assumes "parseInclude filename strtod lx = Inr (d, lx')"
  shows "budget lx' < budget lx"
  using assms unfolding parseInclude_def
  apply (rule strict_start)
   apply (erule expectKeyword_budget)
  apply (intro within_intros order_refl)
  apply assumption+
  done

lemma parseImport_budget:
  assumes "parseImport filename lx = Inr (d, lx')"
  shows "budget lx' < budget lx"
  using assms unfolding parseImport_def
  apply (rule strict_start)
   apply (erule expectKeyword_budget)
  apply (intro within_intros order_refl)
  apply assumption+
  done

lemma parseExternal_budget:
  assumes "parseExternal filename lx = Inr (d, lx')"
  shows "budget lx' < budget lx"
  using assms unfolding parseExternal_def parseExternalLanguageList_def
  apply (rule strict_start)
   apply (erule expectKeyword_budget)
  apply (intro within_intros languages_loop_within order_refl)
  apply assumption+
  done

lemma parseStructure_budget:
  assumes "parseStructure filename strtod lx = Inr (d, lx')"
  shows "budget lx' < budget lx"
  using assms unfolding parseStructure_def
  apply (rule strict_start)
   apply (erule expectKeyword_budget)
  apply (intro within_intros order_refl)
  apply assumption+
  done

lemma parseMessage_budget:
  assumes "parseMessage filename strtod lx = Inr (d, lx')"
  shows "budget lx' < budget lx"
  using assms unfolding parseMessage_def
  apply (rule strict_start)
   apply (erule expectKeyword_budget)
  apply (intro within_intros order_refl)
  apply assumption+
  done

lemma parseDecl_budget:
  assumes "parseDecl filename strtod lx = Inr (d, lx')"
  shows "budget lx' < budget lx"
proof -
  from assms obtain t lx1 where p: "peek 0 lx = Inr (t, lx1)"
    by (auto simp: parseDecl_def andThen_Inr)
  from assms p have "budget lx' < budget lx1"
    by (auto simp: parseDecl_def andThen_Inr split: if_splits
        dest: parseEnumerate_budget parseInclude_budget parseImport_budget parseExternal_budget
          parseStructure_budget parseMessage_budget)
  with peek_budget [OF p] show ?thesis by simp
qed

function decls_loop ::
  "string \<Rightarrow> (string \<Rightarrow> 'd option) \<Rightarrow> Lexer \<Rightarrow> 'd Decl list \<Rightarrow> DescriptionError + ('d Decl list \<times> Lexer)" where
  "decls_loop filename strtod lx acc =
     andThen (peek 0 lx) (\<lambda>t lx1.
       if kind t \<noteq> TokEnd then
         andThen (parseDecl filename strtod lx1) (\<lambda>d lx2.
           decls_loop filename strtod lx2 (acc @ [d]))
       else Inr (acc, lx1))"
  by pat_completeness auto
termination
proof (relation "measure (\<lambda>(filename, strtod, lx, acc). budget lx)")
  show "wf (measure (\<lambda>(filename, strtod, lx, acc). budget lx))" by simp
next
  fix filename :: string and strtod :: "string \<Rightarrow> 'd option" and acc :: "'d Decl list"
    and lx t lx1 d lx2
  assume "peek 0 lx = Inr (t, lx1)" "parseDecl filename strtod lx1 = Inr (d, lx2)"
  then have "budget lx2 < budget lx"
    using peek_budget [of 0 lx t lx1] parseDecl_budget [of filename strtod lx1 d lx2] by simp
  then show "((filename, strtod, lx2, acc @ [d]), (filename, strtod, lx, acc))
      \<in> measure (\<lambda>(filename, strtod, lx, acc). budget lx)" by simp
qed

declare decls_loop.simps [simp del]

definition parseDescription ::
  "string \<Rightarrow> (string \<Rightarrow> 'd option) \<Rightarrow> Lexer \<Rightarrow> DescriptionError + ('d Description \<times> Lexer)" where
  "parseDescription filename strtod lx =
     andThen (isKeyword ''namespace'' lx) (\<lambda>isNs lx1.
     andThen (if isNs
              then andThen (parseNamespace filename lx1) (\<lambda>n lx2. Inr (Some n, lx2))
              else Inr (None, lx1)) (\<lambda>nsopt lx2.
     andThen (decls_loop filename strtod lx2 []) (\<lambda>ds lx3.
     andThen (expect filename TokEnd ''Expected end of input'' lx3) (\<lambda>e lx4.
       Inr (\<lparr>ns = nsopt, decls = ds\<rparr>, lx4)))))"

definition parse :: "(string \<Rightarrow> 'd option) \<Rightarrow> string \<Rightarrow> string \<Rightarrow> DescriptionError + 'd Description" where
  "parse strtod text filename =
     (case parseDescription filename strtod (Lexer_new text) of
        Inl e \<Rightarrow> Inl e
      | Inr (d, lx) \<Rightarrow> Inr d)"

section \<open>The compiler driver\<close>

text \<open>
  \<^verbatim>\<open>main\<close> with the parser and the two emitters as parameters (\<open>Backend\<close>), so that what is
  proved of it holds for the parser and emitters of the repository as for any others. The
  world holds the two output streams and the file system; \<open>w_written\<close> logs the files written,
  in order.
\<close>

datatype OutputLanguage = CPP | Python

definition find_last_of :: "string \<Rightarrow> string \<Rightarrow> nat option" where
  "find_last_of s cs =
     (case filter (\<lambda>i. s ! i \<in> set cs) (rev [0..<length s]) of [] \<Rightarrow> None | i # _ \<Rightarrow> Some i)"

definition output_filename :: "string \<Rightarrow> OutputLanguage \<Rightarrow> string" where
  "output_filename input_filename lang =
     (let base = (case find_last_of input_filename [CHR ''/'', CHR 0x5C] of
                    Some pos \<Rightarrow> drop (pos + 1) input_filename
                  | None \<Rightarrow> input_filename);
          base' = (case find_last_of base ''.'' of Some pos \<Rightarrow> take pos base | None \<Rightarrow> base)
      in case lang of CPP \<Rightarrow> base' @ ''.cpp'' | Python \<Rightarrow> base' @ ''.py'')"

record 'desc Backend =
  be_parse :: "string \<Rightarrow> string \<Rightarrow> DescriptionError + 'desc"
  be_generate_cpp :: "'desc \<Rightarrow> string \<Rightarrow> string"
  be_generate_python :: "'desc \<Rightarrow> string"

record Env =
  env_stdin :: string
  env_sync_with_stdio :: bool
  env_writable :: "string \<Rightarrow> bool"

record World =
  w_stdout :: string
  w_stderr :: string
  w_files :: "string \<Rightarrow> string option"
  w_written :: "(string \<times> string) list"

definition generate_code ::
  "'desc Backend \<Rightarrow> Env \<Rightarrow> 'desc \<Rightarrow> string \<Rightarrow> OutputLanguage \<Rightarrow> World \<Rightarrow> World" where
  "generate_code be env desc input_filename lang w =
     (let out_filename = (if input_filename \<noteq> [] then output_filename input_filename lang else []);
          generated_code = (case lang of
                              CPP \<Rightarrow> be_generate_cpp be desc out_filename
                            | Python \<Rightarrow> be_generate_python be desc)
      in if out_filename = [] then w\<lparr>w_stdout := w_stdout w @ generated_code\<rparr>
         else if \<not> env_writable env out_filename
              then w\<lparr>w_stderr := w_stderr w @ ''Failed to open output file: '' @ out_filename @ nl\<rparr>
              else w\<lparr>w_files := (w_files w)(out_filename \<mapsto> generated_code),
                     w_written := w_written w @ [(out_filename, generated_code)]\<rparr>)"

fun parse_args ::
  "string list \<Rightarrow> string list \<Rightarrow> OutputLanguage \<Rightarrow> string + (string list \<times> OutputLanguage)" where
  "parse_args [] input_files out_lang = Inr (input_files, out_lang)"
| "parse_args [arg] input_files out_lang = Inr (input_files @ [arg], out_lang)"
| "parse_args (arg # lang # rest) input_files out_lang =
     (if arg = ''--language'' then
        (if lang = ''cpp'' then parse_args rest input_files CPP
         else if lang = ''python'' then parse_args rest input_files Python
         else Inl lang)
      else parse_args (lang # rest) (input_files @ [arg]) out_lang)"

text \<open>Opening a file for reading; the empty path never names a file.\<close>

definition open_input :: "World \<Rightarrow> string \<Rightarrow> string option" where
  "open_input w filename = (if filename = [] then None else w_files w filename)"

fun read_files ::
  "'desc Backend \<Rightarrow> Env \<Rightarrow> OutputLanguage \<Rightarrow> string list \<Rightarrow> World \<Rightarrow> int \<times> World" where
  "read_files be env out_lang [] w = (0, w)"
| "read_files be env out_lang (filename # rest) w =
     (case open_input w filename of
        None \<Rightarrow> (1, w\<lparr>w_stderr := w_stderr w @ ''Failed to open input file: '' @ filename @ nl\<rparr>)
      | Some inp \<Rightarrow>
          (case be_parse be inp filename of
             Inl e \<Rightarrow> (1, w\<lparr>w_stderr := w_stderr w @ what e @ nl\<rparr>)
           | Inr d \<Rightarrow> read_files be env out_lang rest (generate_code be env d filename out_lang w)))"

definition main :: "'desc Backend \<Rightarrow> Env \<Rightarrow> string list \<Rightarrow> World \<Rightarrow> int \<times> World" where
  "main be env args w =
     (if \<not> env_sync_with_stdio env
      then (1, w\<lparr>w_stderr := w_stderr w @ ''Failed to disable sync_with_stdio'' @ nl\<rparr>)
      else case parse_args args [] CPP of
             Inl lang \<Rightarrow> (1, w\<lparr>w_stderr := w_stderr w @ ''Unknown output language: '' @ lang @ nl\<rparr>)
           | Inr (input_files, out_lang) \<Rightarrow>
               if length input_files > 1 then read_files be env out_lang input_files w
               else (case be_parse be (env_stdin env) ''input'' of
                       Inl e \<Rightarrow> (1, w\<lparr>w_stderr := w_stderr w @ what e @ nl\<rparr>)
                     | Inr d \<Rightarrow> (0, generate_code be env d [] out_lang w)))"

text \<open>The driver's own parser and emitters.\<close>

definition routio_backend :: "(string \<Rightarrow> 'd option) \<Rightarrow> ('d \<Rightarrow> string) \<Rightarrow> 'd Description Backend" where
  "routio_backend strtod fmt =
     \<lparr>be_parse = parse strtod, be_generate_cpp = generate_cpp fmt, be_generate_python = generate_python fmt\<rparr>"

subsection \<open>Further vocabulary and concrete inputs\<close>

definition no_strtod :: "string \<Rightarrow> unit option" where
  "no_strtod s = Some ()"

definition no_doubles :: "unit \<Rightarrow> string" where
  "no_doubles v = []"

definition array_field :: "string \<Rightarrow> nat option \<Rightarrow> string \<Rightarrow> unit Field" where
  "array_field ty len nm = (plain_field ty nm)\<lparr>Field_array := Some (FieldArray len)\<rparr>"

definition erase_length :: "'d Field \<Rightarrow> 'd Field" where
  "erase_length f = f\<lparr>Field_array := map_option (\<lambda>a. FieldArray None) (Field_array f)\<rparr>"

definition string_token :: "string \<Rightarrow> Token" where
  "string_token s = \<lparr>kind = TokString, lexeme = s, span = \<lparr>sp_offset = 0, sp_line = 1, sp_col = 1\<rparr>\<rparr>"

text \<open>
  Vocabulary for whole descriptions: the structure and message declarations of a list of
  declarations with their fields, the names they declare in ascending order (the iteration
  order of the registry), and the fields of the last structure or message declared under a
  name (the one \<^verbatim>\<open>structs_[name] = fields\<close> keeps); the distinct field names of a field list
  in ascending order.
\<close>

fun struct_decl :: "'d Decl \<Rightarrow> (string \<times> 'd Field list) option" where
  "struct_decl (DStructure d) = Some (Structure_name d, Structure_fields d)"
| "struct_decl (DMessage d) = Some (Message_name d, Message_fields d)"
| "struct_decl (DEnumerate d) = None"
| "struct_decl (DExternal d) = None"
| "struct_decl (DInclude d) = None"
| "struct_decl (DImport d) = None"

definition struct_decls :: "'d Decl list \<Rightarrow> (string \<times> 'd Field list) list" where
  "struct_decls ds = List.map_filter struct_decl ds"

definition struct_names :: "'d Decl list \<Rightarrow> string list" where
  "struct_names ds = sorted_list_of_set (fst ` set (struct_decls ds))"

definition declared_fields :: "'d Decl list \<Rightarrow> string \<Rightarrow> 'd Field list" where
  "declared_fields ds n = snd (last (filter (\<lambda>(m, fs). m = n) (struct_decls ds)))"

definition field_names :: "'d Field list \<Rightarrow> string list" where
  "field_names fs = sorted_list_of_set (Field_name ` set fs)"

text \<open>
  A declaration with the fields of a structure or message permuted, a declared name with the
  set of its field names, and a message with the given fields as the only declaration of a
  description.
\<close>

fun fields_reordered :: "'d Decl \<Rightarrow> 'd Decl \<Rightarrow> bool" where
  "fields_reordered (DStructure a) (DStructure b) =
     (Structure_name b = Structure_name a \<and> mset (Structure_fields b) = mset (Structure_fields a))"
| "fields_reordered (DMessage a) (DMessage b) =
     (Message_name b = Message_name a \<and> mset (Message_fields b) = mset (Message_fields a))"
| "fields_reordered d d' = (d' = d)"

definition names_only :: "(string \<times> 'd Field list) \<Rightarrow> (string \<times> string set)" where
  "names_only p = (fst p, Field_name ` set (snd p))"

definition order_example :: "unit Field list \<Rightarrow> unit Description" where
  "order_example fs = \<lparr>ns = None, decls = [DMessage \<lparr>Message_name = ''M'', Message_fields = fs\<rparr>]\<rparr>"


text \<open>
  A description with every declared array length erased, the same for the fields held by a
  registry, and a structure with a fixed array, a variable array and a scalar.
\<close>

fun erase_decl :: "'d Decl \<Rightarrow> 'd Decl" where
  "erase_decl (DStructure d) = DStructure (d\<lparr>Structure_fields := map erase_length (Structure_fields d)\<rparr>)"
| "erase_decl (DMessage d) = DMessage (d\<lparr>Message_fields := map erase_length (Message_fields d)\<rparr>)"
| "erase_decl (DEnumerate d) = DEnumerate d"
| "erase_decl (DExternal d) = DExternal d"
| "erase_decl (DInclude d) = DInclude d"
| "erase_decl (DImport d) = DImport d"

definition erase_lengths :: "'d Description \<Rightarrow> 'd Description" where
  "erase_lengths desc = desc\<lparr>decls := map erase_decl (decls desc)\<rparr>"

definition erase_fields :: "(string \<times> 'd Field) list \<Rightarrow> (string \<times> 'd Field) list" where
  "erase_fields flds = map (\<lambda>(k, f). (k, erase_length f)) flds"

definition erase_registry :: "'d TypeRegistry \<Rightarrow> 'd TypeRegistry" where
  "erase_registry r = r\<lparr>structs := map (\<lambda>(n, flds). (n, erase_fields flds)) (structs r)\<rparr>"

definition array_example :: "unit Description" where
  "array_example = \<lparr>ns = None, decls =
     [DStructure \<lparr>Structure_name = ''S'', Structure_fields =
        [array_field ''int32'' (Some 3) ''a'', array_field ''float'' None ''b'', plain_field ''bool'' ''c'']\<rparr>]\<rparr>"


text \<open>
  Vocabulary for the driver: the code emitted for a description, the description parsed from
  an input file, input lists none of whose output names is an input name, and input lists
  every file of which opens and parses.
\<close>

definition emitted :: "'desc Backend \<Rightarrow> OutputLanguage \<Rightarrow> 'desc \<Rightarrow> string \<Rightarrow> string" where
  "emitted be lang d out_filename =
     (case lang of CPP \<Rightarrow> be_generate_cpp be d out_filename | Python \<Rightarrow> be_generate_python be d)"

definition parsed :: "'desc Backend \<Rightarrow> World \<Rightarrow> string \<Rightarrow> 'desc" where
  "parsed be w f = projr (be_parse be (the (open_input w f)) f)"

definition no_clobber :: "string list \<Rightarrow> OutputLanguage \<Rightarrow> bool" where
  "no_clobber files lang = (\<forall>f\<in>set files. output_filename f lang \<notin> set files)"

definition all_parse :: "'desc Backend \<Rightarrow> World \<Rightarrow> string list \<Rightarrow> bool" where
  "all_parse be w files = (\<forall>f\<in>set files. \<exists>inp d. open_input w f = Some inp \<and> be_parse be inp f = Inr d)"

text \<open>
  The base name as the specification words it: the file name without its directory and
  without its last extension; and the path of an output placed next to its input.
\<close>

definition file_part :: "string \<Rightarrow> string" where
  "file_part path = rev (takeWhile (\<lambda>c. c \<noteq> CHR ''/'' \<and> c \<noteq> CHR 0x5C) (rev path))"

definition dir_part :: "string \<Rightarrow> string" where
  "dir_part path = rev (dropWhile (\<lambda>c. c \<noteq> CHR ''/'' \<and> c \<noteq> CHR 0x5C) (rev path))"

definition strip_extension :: "string \<Rightarrow> string" where
  "strip_extension name =
     (if CHR ''.'' \<in> set name then rev (tl (dropWhile (\<lambda>c. c \<noteq> CHR ''.'') (rev name))) else name)"

definition extension :: "OutputLanguage \<Rightarrow> string" where
  "extension lang = (case lang of CPP \<Rightarrow> ''.cpp'' | Python \<Rightarrow> ''.py'')"

definition next_to_input :: "string \<Rightarrow> OutputLanguage \<Rightarrow> string" where
  "next_to_input path lang = dir_part path @ strip_extension (file_part path) @ extension lang"

text \<open>
  A concrete environment and file system for the examples, run through the driver's own
  parser and emitters, and the descriptions its inputs parse to.
\<close>

definition demo_backend :: "unit Description Backend" where
  "demo_backend = routio_backend no_strtod no_doubles"

definition demo_env :: Env where
  "demo_env = \<lparr>env_stdin = ''enumerate C { R, G, B }'', env_sync_with_stdio = True,
     env_writable = (\<lambda>p. True)\<rparr>"

definition demo_world :: World where
  "demo_world = \<lparr>w_stdout = [], w_stderr = [],
     w_files = map_of [(''d/a.msg'', ''message A { int32 x; }''),
                       (''b.msg'', ''structure B { float[] y; }''),
                       (''bad.msg'', ''message { }'')],
     w_written = []\<rparr>"

definition demo_desc_stdin :: "unit Description" where
  "demo_desc_stdin = \<lparr>ns = None, decls =
     [DEnumerate \<lparr>Enumerate_name = ''C'', Enumerate_values = [''R'', ''G'', ''B'']\<rparr>]\<rparr>"

definition demo_desc_a :: "unit Description" where
  "demo_desc_a = \<lparr>ns = None, decls =
     [DMessage \<lparr>Message_name = ''A'', Message_fields = [plain_field ''int32'' ''x'']\<rparr>]\<rparr>"

definition demo_desc_b :: "unit Description" where
  "demo_desc_b = \<lparr>ns = None, decls =
     [DStructure \<lparr>Structure_name = ''B'', Structure_fields = [array_field ''float'' None ''y'']\<rparr>]\<rparr>"

section \<open>Properties of the hash\<close>

lemma hash_loop_length [simp]: "length (hash_loop cs i h) = length h"
  by (induction cs arbitrary: i h) simp_all

lemma upt_shift_filter_map:
  "map f (filter P [0..<Suc n]) =
     (if P 0 then [f 0] else []) @ map (f \<circ> Suc) (filter (P \<circ> Suc) [0..<n])"
proof -
  have "[0..<Suc n] = 0 # map Suc [0..<n]"
    by (simp add: upt_conv_Cons map_Suc_upt del: upt_Suc)
  then show ?thesis
    by (simp add: filter_map comp_def del: upt_Suc)
qed

lemma hash_loop_nth:
  "length h = 16 \<Longrightarrow> j < 16 \<Longrightarrow>
   hash_loop cs i h ! j =
     fold (\<lambda>x a. a XOR x)
       (map (\<lambda>k. of_char (cs ! k)) (filter (\<lambda>k. (i + k) mod 16 = j) [0..<length cs])) (h ! j)"
proof (induction cs arbitrary: i h)
  case Nil
  then show ?case by simp
next
  case (Cons c cs)
  let ?h = "h[i mod 16 := (h ! (i mod 16)) XOR of_char c]"
  have len: "length ?h = 16" using Cons.prems by simp
  have step: "hash_loop (c # cs) i h ! j =
      fold (\<lambda>x a. a XOR x)
        (map (\<lambda>k. of_char (cs ! k)) (filter (\<lambda>k. (Suc i + k) mod 16 = j) [0..<length cs])) (?h ! j)"
    using Cons.IH [OF len Cons.prems(2), of "Suc i"] by simp
  have split: "map (\<lambda>k. (of_char ((c # cs) ! k) :: 8 word))
                 (filter (\<lambda>k. (i + k) mod 16 = j) [0..<length (c # cs)]) =
      (if i mod 16 = j then [of_char c] else []) @
      map (\<lambda>k. of_char (cs ! k)) (filter (\<lambda>k. (Suc i + k) mod 16 = j) [0..<length cs])"
    using upt_shift_filter_map [of "\<lambda>k. (of_char ((c # cs) ! k) :: 8 word)"
                                   "\<lambda>k. (i + k) mod 16 = j" "length cs"]
    by (simp add: comp_def del: upt_Suc)
  show ?case
  proof (cases "i mod 16 = j")
    case True
    then have "?h ! j = (h ! j) XOR of_char c" using Cons.prems by simp
    with step split True show ?thesis by (simp del: upt_Suc hash_loop.simps)
  next
    case False
    then have "?h ! j = h ! j" by simp
    with step split False show ?thesis by (simp del: upt_Suc hash_loop.simps)
  qed
qed

lemma hash_loop_spec:
  "hash_loop s 0 (replicate 16 0) = map (xor_fold_spec s) [0..<16]"
proof (rule nth_equalityI)
  show "length (hash_loop s 0 (replicate 16 0)) = length (map (xor_fold_spec s) [0..<16])"
    by simp
next
  fix j assume "j < length (hash_loop s 0 (replicate 16 0))"
  then have j: "j < 16" by simp
  have "hash_loop s 0 (replicate 16 0) ! j = xor_fold_spec s j"
    using hash_loop_nth [of "replicate 16 0" j s 0] j
    by (simp add: xor_fold_spec_def)
  with j show "hash_loop s 0 (replicate 16 0) ! j = map (xor_fold_spec s) [0..<16] ! j"
    by (simp del: upt_Suc)
qed

lemma hex_byte: "n < 256 \<Longrightarrow>
  setw_fill 2 (CHR ''0'') (hex_of_nat n) = [hex_digit (n div 16), hex_digit (n mod 16)]"
proof (cases "n < 16")
  case True
  then show ?thesis
    by (simp add: hex_of_nat.simps [of n] setw_fill_def hex_digit_def)
next
  case False
  assume "n < 256"
  then have "n div 16 < 16" by simp
  with False show ?thesis
    by (simp add: hex_of_nat.simps [of n] hex_of_nat.simps [of "n div 16"] setw_fill_def)
qed

lemma hex_word: "setw_fill 2 (CHR ''0'') (hex_of_nat (unat (b :: 8 word))) = hex2 b"
proof -
  have "unat b < 256" using unsigned_less [of b] by simp
  then show ?thesis by (simp add: hex_byte hex2_def)
qed

lemma computeHash_hex2: "computeHash s = concat (map hex2 (hash_loop s 0 (replicate 16 0)))"
  by (simp add: computeHash_def hex_word)

lemma length_concat_hex2: "length (concat (map hex2 bs)) = 2 * length bs"
  by (induction bs) (simp_all add: hex2_def)

lemma hex_digit_in: "hex_digit d \<in> set ''0123456789abcdef''"
proof -
  have "d mod 16 < length ''0123456789abcdef''" by simp
  then show ?thesis unfolding hex_digit_def by (rule nth_mem)
qed

lemma set_concat_hex2: "set (concat (map hex2 bs)) \<subseteq> set ''0123456789abcdef''"
proof (induction bs)
  case Nil
  then show ?case by simp
next
  case (Cons b bs)
  have "set (hex2 b) \<subseteq> set ''0123456789abcdef''"
    using hex_digit_in [of "unat b div 16"] hex_digit_in [of "unat b mod 16"]
    unfolding hex2_def by simp
  with Cons show ?case by simp
qed

lemma concat_replicate_pair: "concat (replicate n [c, c]) = replicate (2 * n) c"
  by (induction n) simp_all

text \<open>
  C4. \<^const>\<open>computeHash\<close> XOR-folds byte \<open>i\<close> of its input into position \<open>i mod 16\<close> of a
  16-byte accumulator that starts at zero and renders the accumulator as two lowercase
  hexadecimal characters per byte: the result has 32 characters, all of them lowercase
  hexadecimal digits, and the empty input gives 32 characters \<open>0\<close>.
\<close>

theorem computeHash_xor_fold:
  "computeHash s = concat (map (\<lambda>j. hex2 (xor_fold_spec s j)) [0..<16])
   \<and> length (computeHash s) = 32
   \<and> set (computeHash s) \<subseteq> set ''0123456789abcdef''
   \<and> computeHash [] = replicate 32 (CHR ''0'')"
proof -
  have a: "computeHash s = concat (map (\<lambda>j. hex2 (xor_fold_spec s j)) [0..<16])"
    by (simp only: computeHash_hex2 hash_loop_spec map_map comp_def)
  have b: "length (computeHash s) = 32"
    by (simp add: computeHash_hex2 length_concat_hex2)
  have c: "set (computeHash s) \<subseteq> set ''0123456789abcdef''"
    unfolding computeHash_hex2 by (rule set_concat_hex2)
  have "hex2 0 = [CHR ''0'', CHR ''0'']"
    by (simp add: hex2_def hex_digit_def)
  then have d: "computeHash [] = replicate 32 (CHR ''0'')"
    using concat_replicate_pair [of 16 "CHR ''0''"]
    by (simp add: computeHash_hex2)
  from a b c d show ?thesis by blast
qed

section \<open>The map model\<close>

lemma map_of_map_put: "map_of (map_put k v m) = (map_of m)(k \<mapsto> v)"
  by (induction m) (auto simp: fun_upd_twist)

lemma keys_map_put: "fst ` set (map_put k v m) = insert k (fst ` set m)"
proof -
  have "dom (map_of (map_put k v m)) = insert k (dom (map_of m))"
    by (simp add: map_of_map_put)
  then show ?thesis by (simp add: dom_map_of_conv_image_fst)
qed

lemma sorted_map_put:
  "sorted_wrt (<) (map fst m) \<Longrightarrow> sorted_wrt (<) (map fst (map_put k v m))"
proof (induction m)
  case Nil
  then show ?case by simp
next
  case (Cons p m)
  obtain k' v' where p: "p = (k', v')" by (cases p)
  from Cons.prems have tl: "sorted_wrt (<) (map fst m)" and hd: "\<forall>x\<in>fst ` set m. k' < x"
    by (auto simp: p)
  show ?case
  proof (cases "k < k'")
    case True
    with Cons.prems show ?thesis by (auto simp: p)
  next
    case False
    show ?thesis
    proof (cases "k = k'")
      case True
      with Cons.prems show ?thesis by (simp add: p)
    next
      case ne: False
      with False have "k' < k" by simp
      with hd have "\<forall>x\<in>fst ` set (map_put k v m). k' < x"
        by (simp add: keys_map_put)
      with Cons.IH [OF tl] False ne show ?thesis by (simp add: p)
    qed
  qed
qed

lemma alist_canonical:
  assumes "distinct (map fst m)"
  shows "map (\<lambda>k. (k, the (map_of m k))) (map fst m) = m"
proof -
  have "\<And>p. p \<in> set m \<Longrightarrow> (fst p, the (map_of m (fst p))) = p"
  proof -
    fix p assume "p \<in> set m"
    then have "(fst p, snd p) \<in> set m" by simp
    with assms have "map_of m (fst p) = Some (snd p)" by (rule map_of_is_SomeI)
    then show "(fst p, the (map_of m (fst p))) = p" by simp
  qed
  then have "map (\<lambda>p. (fst p, the (map_of m (fst p)))) m = m" by (rule map_idI)
  then show ?thesis by (simp add: comp_def)
qed

lemma sorted_alist_keys:
  fixes m :: "('k::linorder \<times> 'v) list"
  assumes "sorted_wrt (<) (map fst m)"
  shows "map fst m = sorted_list_of_set (fst ` set m)"
proof -
  from assms have "sorted (map fst m)" "distinct (map fst m)"
    by (simp_all add: strict_sorted_iff)
  then show ?thesis
    using sorted_list_of_set.idem_if_sorted_distinct [of "map fst m"] by simp
qed

lemma sorted_alist_entries:
  fixes m :: "('k::linorder \<times> 'v) list"
  assumes "sorted_wrt (<) (map fst m)"
  shows "m = map (\<lambda>k. (k, the (map_of m k))) (sorted_list_of_set (fst ` set m))"
proof -
  from assms have "distinct (map fst m)" by (simp add: strict_sorted_iff)
  from alist_canonical [OF this] show ?thesis
    by (simp add: sorted_alist_keys [OF assms, symmetric])
qed

lemma sorted_alist_eqI:
  fixes a b :: "('k::linorder \<times> 'v) list"
  assumes "sorted_wrt (<) (map fst a)" "sorted_wrt (<) (map fst b)" "map_of a = map_of b"
  shows "a = b"
proof -
  have "fst ` set a = fst ` set b"
    using assms(3) by (metis dom_map_of_conv_image_fst)
  then show ?thesis
    using sorted_alist_entries [OF assms(1)] sorted_alist_entries [OF assms(2)] assms(3)
    by simp
qed

section \<open>Type identifiers of structures and messages\<close>

lemma fields_map_snoc: "fields_map (fs @ [f]) = map_put (Field_name f) f (fields_map fs)"
  by (simp add: fields_map_def)

lemma fields_map_Nil: "fields_map [] = []"
  by (simp add: fields_map_def)

lemma fields_map_sorted: "sorted_wrt (<) (map fst (fields_map fs))"
  by (induction fs rule: rev_induct) (simp_all add: fields_map_snoc fields_map_Nil sorted_map_put)

lemma keys_fields_map: "fst ` set (fields_map fs) = Field_name ` set fs"
  by (induction fs rule: rev_induct) (simp_all add: fields_map_snoc fields_map_Nil keys_map_put)

lemma map_of_fields_map:
  "map_of (fields_map fs) k = (if k \<in> Field_name ` set fs then Some (last_named fs k) else None)"
proof (induction fs rule: rev_induct)
  case Nil
  then show ?case by (simp add: fields_map_Nil)
next
  case (snoc f fs)
  show ?case
  proof (cases "Field_name f = k")
    case True
    then show ?thesis by (simp add: fields_map_snoc map_of_map_put last_named_def)
  next
    case False
    then have "map_of (fields_map (fs @ [f])) k = map_of (fields_map fs) k"
      by (simp add: fields_map_snoc map_of_map_put)
    with False snoc show ?thesis by (auto simp: last_named_def)
  qed
qed

lemma fields_map_entries:
  "fields_map fs = map (\<lambda>k. (k, last_named fs k)) (sorted_list_of_set (Field_name ` set fs))"
proof -
  have "fields_map fs =
      map (\<lambda>k. (k, the (map_of (fields_map fs) k))) (sorted_list_of_set (Field_name ` set fs))"
    using sorted_alist_entries [OF fields_map_sorted, of fs] by (simp add: keys_fields_map)
  also have "\<dots> = map (\<lambda>k. (k, last_named fs k)) (sorted_list_of_set (Field_name ` set fs))"
    by (rule map_cong) (simp_all add: map_of_fields_map)
  finally show ?thesis .
qed

lemma fold_content:
  "fold (\<lambda>(fname, field) content. content @ g fname field) flds name =
     name @ concat (map (\<lambda>(fname, field). g fname field) flds)"
  by (induction flds arbitrary: name) (simp_all add: split_def)

lemma getHash_registerType_same: "getHash (registerType reg meta) (tm_name meta) = tm_hash meta"
  by (simp add: getHash_def getType_def registerType_def map_of_map_put)

lemma getHash_registerType_other:
  "n \<noteq> tm_name meta \<Longrightarrow> getHash (registerType reg meta) n = getHash reg n"
  by (simp add: getHash_def getType_def registerType_def map_of_map_put)

lemma getHash_types: "types r = types r' \<Longrightarrow> getHash r n = getHash r' n"
  by (simp add: getHash_def getType_def)

lemma getHash_registerStruct:
  "getHash (registerStruct reg name flds) name =
     computeHash (name @ concat (map (\<lambda>(fname, field). Field_type field @ fname) flds))"
proof -
  have "fold (\<lambda>(fname, field) content. content @ Field_type field @ fname) flds name =
        name @ concat (map (\<lambda>(fname, field). Field_type field @ fname) flds)"
    by (rule fold_content)
  then show ?thesis
    using getHash_registerType_same [of "reg\<lparr>structs := map_put name flds (structs reg)\<rparr>"
      "TypeMetadata_new\<lparr>tm_name := name, is_builtin := False,
          tm_hash := computeHash
            (fold (\<lambda>(fname, field) content. content @ Field_type field @ fname) flds name)\<rparr>"]
    by (simp add: registerStruct_def)
qed

lemma getHash_registerMessage:
  "getHash (registerMessage reg name flds) name =
     computeHash (name @ concat (map (\<lambda>(fname, field). Field_type field @ fname) flds))"
  by (simp add: registerMessage_def getHash_registerStruct)

lemma struct_digest_sorted:
  "name @ concat (map (\<lambda>(fname, field). Field_type field @ fname) (fields_map fs)) =
   name @ concat (map (\<lambda>k. Field_type (last_named fs k) @ k) (sorted_list_of_set (Field_name ` set fs)))"
  by (simp add: fields_map_entries [of fs] comp_def)

text \<open>
  C3 (as amended). The type identifier of a structure or message is the hash of the type
  name followed by one entry per distinct field name, in ascending order of the field names
  (not in declaration order); the entry is the type of the last field declared under that
  name, followed by the name.
\<close>

theorem type_id_digest_sorted_by_name:
  "getHash (visit_decl reg (DStructure \<lparr>Structure_name = n, Structure_fields = fs\<rparr>)) n =
     computeHash (n @ concat (map (\<lambda>k. Field_type (last_named fs k) @ k)
                                  (sorted_list_of_set (Field_name ` set fs))))
   \<and> getHash (visit_decl reg (DMessage \<lparr>Message_name = n, Message_fields = fs\<rparr>)) n =
     computeHash (n @ concat (map (\<lambda>k. Field_type (last_named fs k) @ k)
                                  (sorted_list_of_set (Field_name ` set fs))))"
  by (simp add: getHash_registerStruct getHash_registerMessage struct_digest_sorted)

lemma filter_key_le1:
  "distinct (map g xs) \<Longrightarrow> length (filter (\<lambda>x. g x = k) xs) \<le> 1"
  by (induction xs) (auto simp: filter_empty_conv image_iff)

lemma mset_eq_short:
  assumes "mset xs = mset ys" "length xs \<le> 1"
  shows "xs = ys"
proof (cases xs)
  case Nil
  with assms show ?thesis by simp
next
  case (Cons x xs')
  with assms(2) have xs: "xs = [x]" by simp
  with assms(1) have "mset ys = {#x#}" by simp
  then have "ys = [x]" by (simp add: mset_single_iff_right)
  with xs show ?thesis by simp
qed

lemma last_named_perm:
  assumes "distinct (map Field_name fs)" "mset fs' = mset fs"
  shows "last_named fs' k = last_named fs k"
proof -
  have "mset (filter (\<lambda>f. Field_name f = k) fs) = mset (filter (\<lambda>f. Field_name f = k) fs')"
    using assms(2) by simp
  moreover have "length (filter (\<lambda>f. Field_name f = k) fs) \<le> 1"
    using assms(1) by (rule filter_key_le1)
  ultimately have "filter (\<lambda>f. Field_name f = k) fs = filter (\<lambda>f. Field_name f = k) fs'"
    by (rule mset_eq_short)
  then show ?thesis by (simp add: last_named_def)
qed

lemma fields_map_perm:
  assumes "distinct (map Field_name fs)" "mset fs' = mset fs"
  shows "fields_map fs' = fields_map fs"
proof -
  have "set fs' = set fs" using assms(2) by (rule mset_eq_setD)
  then show ?thesis
    by (simp add: fields_map_entries [of fs'] fields_map_entries [of fs]
        last_named_perm [OF assms])
qed

text \<open>
  C2 (as amended). When the field names of a structure or message declaration are pairwise
  distinct, registering any permutation of its fields yields the same type identifier.
\<close>

theorem type_id_field_order_independent:
  assumes "distinct (map Field_name fs)" and "mset fs' = mset fs"
  shows "getHash (visit_decl reg (DStructure \<lparr>Structure_name = n, Structure_fields = fs'\<rparr>)) n =
         getHash (visit_decl reg (DStructure \<lparr>Structure_name = n, Structure_fields = fs\<rparr>)) n
       \<and> getHash (visit_decl reg (DMessage \<lparr>Message_name = n, Message_fields = fs'\<rparr>)) n =
         getHash (visit_decl reg (DMessage \<lparr>Message_name = n, Message_fields = fs\<rparr>)) n"
  by (simp add: fields_map_perm [OF assms])

lemma tm_name_external_fold:
  "tm_name (fold (\<lambda>lang meta.
             if language lang = ''cpp'' \<or> language lang = ''c++'' then external_lang ''cpp'' lang meta
             else if language lang = ''python'' \<or> language lang = ''py'' then external_lang ''python'' lang meta
             else meta) ls m) = tm_name m"
  by (induction ls arbitrary: m) (simp_all add: external_lang_def)

lemma tm_name_external_meta: "tm_name (external_meta d) = External_name d"
  by (simp add: external_meta_def tm_name_external_fold)

lemma tm_hash_external_fold:
  "tm_hash (fold (\<lambda>lang meta.
             if language lang = ''cpp'' \<or> language lang = ''c++'' then external_lang ''cpp'' lang meta
             else if language lang = ''python'' \<or> language lang = ''py'' then external_lang ''python'' lang meta
             else meta) ls m) = tm_hash m"
  by (induction ls arbitrary: m) (simp_all add: external_lang_def)

lemma visit_decl_declared:
  "declared_name d = Some n \<Longrightarrow> getHash (visit_decl r1 d) n = getHash (visit_decl r2 d) n"
proof (cases d)
  case (DExternal e)
  assume "declared_name d = Some n"
  with DExternal have n: "n = tm_name (external_meta e)" by (simp add: tm_name_external_meta)
  show ?thesis unfolding DExternal n by (simp add: getHash_registerType_same)
qed (auto simp: registerEnum_def registerStruct_def registerMessage_def
       getHash_def getType_def registerType_def map_of_map_put)

lemma visit_decl_other:
  "declared_name d \<noteq> Some n \<Longrightarrow> getHash (visit_decl r d) n = getHash r n"
proof (cases d)
  case (DExternal e)
  assume "declared_name d \<noteq> Some n"
  with DExternal have "n \<noteq> tm_name (external_meta e)" by (simp add: tm_name_external_meta)
  then show ?thesis unfolding DExternal by (simp add: getHash_registerType_other)
qed (auto simp: registerEnum_def registerStruct_def registerMessage_def
       getHash_def getType_def registerType_def map_of_map_put)

lemma foldl_visit_other:
  "Some n \<notin> declared_name ` set ds \<Longrightarrow> getHash (foldl visit_decl r ds) n = getHash r n"
proof (induction ds arbitrary: r)
  case Nil
  then show ?case by simp
next
  case (Cons d ds)
  then have "declared_name d \<noteq> Some n" and rest: "Some n \<notin> declared_name ` set ds"
    by auto
  then show ?case using Cons.IH [OF rest, of "visit_decl r d"] by (simp add: visit_decl_other)
qed

text \<open>
  C1. The type identifier recorded for a declared type is a function of the declarations
  alone: two runs over the same list of declarations record equal identifiers for every
  declared name, whatever the registries the two runs start from.
\<close>

theorem type_ids_deterministic:
  assumes "Some n \<in> declared_name ` set ds"
  shows "getHash (foldl visit_decl r1 ds) n = getHash (foldl visit_decl r2 ds) n"
  using assms
proof (induction ds arbitrary: r1 r2)
  case Nil
  then show ?case by simp
next
  case (Cons d ds)
  show ?case
  proof (cases "Some n \<in> declared_name ` set ds")
    case True
    then show ?thesis using Cons.IH [of "visit_decl r1 d" "visit_decl r2 d"] by simp
  next
    case False
    with Cons.prems have "declared_name d = Some n" by auto
    then have "getHash (visit_decl r1 d) n = getHash (visit_decl r2 d) n"
      by (rule visit_decl_declared)
    with False show ?thesis by (simp add: foldl_visit_other)
  qed
qed

theorem type_ids_deterministic_witness:
  "Some ''M'' \<in> declared_name ` set example_decls
   \<and> getHash (foldl visit_decl empty_registry example_decls) ''M'' =
     getHash (foldl visit_decl (registerBuiltinTypes TypeRegistry_new) example_decls) ''M''"
proof -
  have h: "Some ''M'' \<in> declared_name ` set example_decls"
    by (simp add: example_decls_def)
  from h type_ids_deterministic [OF h] show ?thesis by blast
qed

text \<open>
  C2 as stated fails when two fields share a name: the later declaration overwrites the
  earlier one in the map, so swapping them changes the digest.
\<close>

theorem type_id_field_order_counterexample:
  "mset [plain_field ''float'' ''a'', plain_field ''int32'' ''a''] =
   mset [plain_field ''int32'' ''a'', plain_field ''float'' ''a'']
   \<and> getHash (visit_decl empty_registry (DStructure \<lparr>Structure_name = ''S'', Structure_fields =
        [plain_field ''float'' ''a'', plain_field ''int32'' ''a'']\<rparr>)) ''S'' \<noteq>
     getHash (visit_decl empty_registry (DStructure \<lparr>Structure_name = ''S'', Structure_fields =
        [plain_field ''int32'' ''a'', plain_field ''float'' ''a'']\<rparr>)) ''S''"
  by code_simp

theorem type_id_field_order_independent_witness:
  "distinct (map Field_name [plain_field ''int32'' ''a'', plain_field ''float'' ''b''])
   \<and> mset [plain_field ''float'' ''b'', plain_field ''int32'' ''a''] =
     mset [plain_field ''int32'' ''a'', plain_field ''float'' ''b'']
   \<and> getHash (visit_decl empty_registry (DStructure \<lparr>Structure_name = ''S'', Structure_fields =
        [plain_field ''float'' ''b'', plain_field ''int32'' ''a'']\<rparr>)) ''S'' =
     getHash (visit_decl empty_registry (DStructure \<lparr>Structure_name = ''S'', Structure_fields =
        [plain_field ''int32'' ''a'', plain_field ''float'' ''b'']\<rparr>)) ''S''"
proof -
  have d: "distinct (map Field_name [plain_field ''int32'' ''a'', plain_field ''float'' ''b''])"
    by (simp add: plain_field_def)
  have m: "mset [plain_field ''float'' ''b'', plain_field ''int32'' ''a''] =
     mset [plain_field ''int32'' ''a'', plain_field ''float'' ''b'']"
    by simp
  from d m type_id_field_order_independent [OF d m, of empty_registry "''S''"] show ?thesis
    by blast
qed

text \<open>
  C3 as stated fails: for \<^verbatim>\<open>structure S { int32 b; int32 a; }\<close> the identifier is not the
  hash of the digest that lists the fields in declaration order, in either rendering.
\<close>

theorem type_id_declaration_order_counterexample:
  "getHash (visit_decl empty_registry (DStructure \<lparr>Structure_name = ''S'', Structure_fields =
        [plain_field ''int32'' ''b'', plain_field ''int32'' ''a'']\<rparr>)) ''S'' \<noteq>
     computeHash (decl_order_digest ''S'' [plain_field ''int32'' ''b'', plain_field ''int32'' ''a''])
   \<and> getHash (visit_decl empty_registry (DStructure \<lparr>Structure_name = ''S'', Structure_fields =
        [plain_field ''int32'' ''b'', plain_field ''int32'' ''a'']\<rparr>)) ''S'' \<noteq>
     computeHash (decl_order_digest_name_first ''S'' [plain_field ''int32'' ''b'', plain_field ''int32'' ''a''])"
  by code_simp

section \<open>Field order in the emitted code\<close>

lemma structs_registerType [simp]: "structs (registerType reg meta) = structs reg"
  by (simp add: registerType_def)

lemma map_fst_fields_map: "map fst (fields_map fs) = sorted_list_of_set (Field_name ` set fs)"
  by (simp add: fields_map_entries [of fs] comp_def)

lemma serializer_by_names:
  "Cpp_struct_serializer cppns n flds =
     ''template <> inline void read(MessageReader& reader, '' @ cppns @ n @ ''& dst) {'' @ nl @
     concat (map (\<lambda>k. tab @ ''read(reader, dst.'' @ k @ '');'' @ nl) (map fst flds)) @
     ''}'' @ nl @ nl @
     ''template <> inline void write(MessageWriter& writer, const '' @ cppns @ n @ ''& src) {'' @ nl @
     concat (map (\<lambda>k. tab @ ''write(writer, src.'' @ k @ '');'' @ nl) (map fst flds)) @
     ''}'' @ nl @ nl"
  by (simp add: Cpp_struct_serializer_def comp_def split_def)

lemma structs_visit_decl:
  "structs (visit_decl r d) =
     (case struct_decl d of Some (n, fs) \<Rightarrow> map_put n (fields_map fs) (structs r) | None \<Rightarrow> structs r)"
  by (cases d) (simp_all add: registerStruct_def registerMessage_def registerEnum_def registerType_def)

lemma struct_decls_snoc:
  "struct_decls (ds @ [d]) =
     struct_decls ds @ (case struct_decl d of Some p \<Rightarrow> [p] | None \<Rightarrow> [])"
  by (simp add: struct_decls_def List.map_filter_def split: option.splits)

lemma struct_decls_Nil [simp]: "struct_decls [] = []"
  by (simp add: struct_decls_def List.map_filter_def)

lemma structs_foldl_sorted:
  "sorted_wrt (<) (map fst (structs r)) \<Longrightarrow> sorted_wrt (<) (map fst (structs (foldl visit_decl r ds)))"
proof (induction ds rule: rev_induct)
  case Nil
  then show ?case by simp
next
  case (snoc d ds)
  then show ?case
    by (simp add: structs_visit_decl sorted_map_put split: option.splits)
qed

lemma structs_foldl_map_of:
  "structs r = [] \<Longrightarrow>
   map_of (structs (foldl visit_decl r ds)) n =
     (if n \<in> fst ` set (struct_decls ds) then Some (fields_map (declared_fields ds n)) else None)"
proof (induction ds rule: rev_induct)
  case Nil
  then show ?case by simp
next
  case (snoc d ds)
  show ?case
  proof (cases "struct_decl d")
    case None
    with snoc show ?thesis
      by (simp add: structs_visit_decl struct_decls_snoc declared_fields_def)
  next
    case (Some p)
    obtain m fs where p: "p = (m, fs)" by (cases p)
    show ?thesis
    proof (cases "m = n")
      case True
      with Some p snoc show ?thesis
        by (simp add: structs_visit_decl struct_decls_snoc declared_fields_def map_of_map_put)
    next
      case False
      with Some p snoc show ?thesis
        by (simp add: structs_visit_decl struct_decls_snoc declared_fields_def map_of_map_put)
    qed
  qed
qed

lemma structs_foldl_keys:
  "structs r = [] \<Longrightarrow> fst ` set (structs (foldl visit_decl r ds)) = fst ` set (struct_decls ds)"
proof (induction ds rule: rev_induct)
  case Nil
  then show ?case by simp
next
  case (snoc d ds)
  then show ?case
    by (auto simp: structs_visit_decl struct_decls_snoc keys_map_put split: option.splits)
qed

lemma structs_registerBuiltinTypes [simp]: "structs (registerBuiltinTypes r) = structs r"
proof -
  have a: "\<And>r xs. structs (foldl registerType r xs) = structs r"
    subgoal for r xs by (induction xs arbitrary: r) (simp_all add: registerType_def)
    done
  have b: "\<And>r xs. structs (foldl (\<lambda>r (name, cs, ds). registerType r (createBuiltinType name cs ds)) r xs) = structs r"
    subgoal for r xs by (induction xs arbitrary: r) (simp_all add: registerType_def split_def)
    done
  show ?thesis by (simp add: registerBuiltinTypes_def a b)
qed

lemma structs_buildRegistry:
  "structs (buildRegistry desc) =
     map (\<lambda>n. (n, map (\<lambda>k. (k, last_named (declared_fields (decls desc) n) k))
                      (field_names (declared_fields (decls desc) n))))
         (struct_names (decls desc))"
proof -
  let ?r = "registerBuiltinTypes TypeRegistry_new :: 'a TypeRegistry"
  let ?S = "structs (foldl visit_decl ?r (decls desc))"
  have e: "structs ?r = []" by (simp add: TypeRegistry_new_def)
  then have s: "sorted_wrt (<) (map fst ?S)" by (intro structs_foldl_sorted) simp
  have k: "fst ` set ?S = fst ` set (struct_decls (decls desc))" by (rule structs_foldl_keys [OF e])
  have "?S = map (\<lambda>k. (k, the (map_of ?S k))) (sorted_list_of_set (fst ` set ?S))"
    by (rule sorted_alist_entries [OF s])
  also have "\<dots> = map (\<lambda>n. (n, fields_map (declared_fields (decls desc) n))) (struct_names (decls desc))"
    unfolding k struct_names_def
    by (rule map_cong) (simp_all add: structs_foldl_map_of [OF e])
  finally show ?thesis
    by (simp add: buildRegistry_def fields_map_entries field_names_def)
qed

lemma registry_new [simp]: "registry (CppGenerator_new desc) = buildRegistry desc"
  by (simp add: CppGenerator_new_def)

lemma getCppNamespace_ns:
  "ns desc' = ns desc \<Longrightarrow> getCppNamespace (CppGenerator_new desc') = getCppNamespace (CppGenerator_new desc)"
  by (simp add: getCppNamespace_def CppGenerator_new_def)

lemma generateStructSerializers_by_names:
  "Cpp_generateStructSerializers (CppGenerator_new desc) =
     concat (map (\<lambda>n.
        ''template <> inline void read(MessageReader& reader, '' @
          getCppNamespace (CppGenerator_new desc) @ n @ ''& dst) {'' @ nl @
        concat (map (\<lambda>k. tab @ ''read(reader, dst.'' @ k @ '');'' @ nl)
                    (field_names (declared_fields (decls desc) n))) @
        ''}'' @ nl @ nl @
        ''template <> inline void write(MessageWriter& writer, const '' @
          getCppNamespace (CppGenerator_new desc) @ n @ ''& src) {'' @ nl @
        concat (map (\<lambda>k. tab @ ''write(writer, src.'' @ k @ '');'' @ nl)
                    (field_names (declared_fields (decls desc) n))) @
        ''}'' @ nl @ nl)
      (struct_names (decls desc)))"
  unfolding Cpp_generateStructSerializers_def registry_new structs_buildRegistry
  by (simp add: serializer_by_names comp_def)

lemma generateStructs_by_names:
  "Cpp_generateStructs (CppGenerator_new desc) fmt =
     concat (map (\<lambda>n.
        ''class '' @ n @ '' {'' @ nl @ ''public:'' @ nl @
        tab @ n @ ''('' @ nl @
        join_with ('','' @ nl)
          (map (\<lambda>k. tab @ tab @
                  getFieldType (buildRegistry desc) (last_named (declared_fields (decls desc) n) k) @
                  '' '' @ k @ '' = '' @
                  Cpp_getDefaultValue (buildRegistry desc) fmt (last_named (declared_fields (decls desc) n) k))
               (field_names (declared_fields (decls desc) n))) @
        nl @ tab @ '') {'' @ nl @
        concat (map (\<lambda>k. tab @ tab @ ''this->'' @ k @ '' = '' @ k @ '';'' @ nl)
                    (field_names (declared_fields (decls desc) n))) @
        tab @ ''};'' @ nl @ nl @
        tab @ ''virtual ~'' @ n @ ''() {};'' @ nl @
        concat (map (\<lambda>k. tab @
                  getFieldType (buildRegistry desc) (last_named (declared_fields (decls desc) n) k) @
                  '' '' @ k @ '';'' @ nl)
                    (field_names (declared_fields (decls desc) n))) @
        ''};'' @ nl @ nl)
      (struct_names (decls desc)))"
  unfolding Cpp_generateStructs_def registry_new structs_buildRegistry
  by (simp add: Cpp_struct_class_def Cpp_ctor_params_def comp_def)

lemma fields_reordered_names:
  "fields_reordered d d' \<Longrightarrow> map names_only (struct_decls [d']) = map names_only (struct_decls [d])"
  by (cases d; cases d')
     (auto simp: struct_decls_def List.map_filter_def names_only_def dest: mset_eq_setD)

lemma struct_decls_Cons: "struct_decls (d # ds) = struct_decls [d] @ struct_decls ds"
  by (simp add: struct_decls_def List.map_filter_def)

lemma list_all2_reordered_names:
  "list_all2 fields_reordered ds ds' \<Longrightarrow>
     map names_only (struct_decls ds') = map names_only (struct_decls ds)"
proof (induction rule: list_all2_induct)
  case Nil
  then show ?case by simp
next
  case (Cons d ds d' ds')
  then show ?case
    using fields_reordered_names [of d d']
    by (simp add: struct_decls_Cons [of d ds] struct_decls_Cons [of d' ds'])
qed

lemma struct_names_names_only:
  "struct_names ds = sorted_list_of_set (fst ` set (map names_only (struct_decls ds)))"
  by (simp add: struct_names_def names_only_def image_image)

lemma field_names_names_only:
  assumes "n \<in> fst ` set (struct_decls ds)"
  shows "field_names (declared_fields ds n) =
     sorted_list_of_set (snd (last (filter (\<lambda>p. fst p = n) (map names_only (struct_decls ds)))))"
proof -
  have ne: "filter (\<lambda>(m, fs). m = n) (struct_decls ds) \<noteq> []"
    using assms by (auto simp: filter_empty_conv)
  have "filter (\<lambda>p. fst p = n) (map names_only (struct_decls ds)) =
        map names_only (filter (\<lambda>(m, fs). m = n) (struct_decls ds))"
    by (simp add: filter_map comp_def names_only_def split_def)
  then show ?thesis
    using ne by (simp add: field_names_def declared_fields_def last_map names_only_def)
qed

lemma set_struct_names: "set (struct_names ds) = fst ` set (struct_decls ds)"
  by (simp add: struct_names_def)

lemma serializers_reordered:
  assumes "ns desc' = ns desc" "list_all2 fields_reordered (decls desc) (decls desc')"
  shows "Cpp_generateStructSerializers (CppGenerator_new desc') =
         Cpp_generateStructSerializers (CppGenerator_new desc)"
proof -
  note eq = list_all2_reordered_names [OF assms(2)]
  have n: "struct_names (decls desc') = struct_names (decls desc)"
    by (simp only: struct_names_names_only eq)
  have f: "field_names (declared_fields (decls desc') n) = field_names (declared_fields (decls desc) n)"
    if "n \<in> set (struct_names (decls desc))" for n
  proof -
    from that have a: "n \<in> fst ` set (struct_decls (decls desc))" by (simp only: set_struct_names)
    from that have b: "n \<in> fst ` set (struct_decls (decls desc'))" by (simp only: n [symmetric] set_struct_names)
    show ?thesis by (simp only: field_names_names_only [OF a] field_names_names_only [OF b] eq)
  qed
  show ?thesis
    unfolding generateStructSerializers_by_names n getCppNamespace_ns [OF assms(1)]
    by (rule arg_cong [where f = concat], rule map_cong) (simp_all add: f)
qed

text \<open>
  C10. For every description, the generated C++ serializers are, for each structure or
  message in ascending order of name, a \<^verbatim>\<open>read\<close> and a \<^verbatim>\<open>write\<close> function that list the
  distinct field names of the declaration in ascending order, and the generated classes list
  the constructor parameters, the assignments and the members in the same order, each taken
  from the last field declared under that name. Permuting the fields of the declarations
  leaves the serializers unchanged; renaming field \<open>a\<close> of \<^verbatim>\<open>message M { float b; int32 a; }\<close>
  to \<open>c\<close> moves it behind \<open>b\<close>.
\<close>

theorem cpp_fields_sorted_by_name:
  "Cpp_generateStructSerializers (CppGenerator_new desc) =
     concat (map (\<lambda>n.
        ''template <> inline void read(MessageReader& reader, '' @
          getCppNamespace (CppGenerator_new desc) @ n @ ''& dst) {'' @ nl @
        concat (map (\<lambda>k. tab @ ''read(reader, dst.'' @ k @ '');'' @ nl)
                    (sorted_list_of_set (Field_name ` set (declared_fields (decls desc) n)))) @
        ''}'' @ nl @ nl @
        ''template <> inline void write(MessageWriter& writer, const '' @
          getCppNamespace (CppGenerator_new desc) @ n @ ''& src) {'' @ nl @
        concat (map (\<lambda>k. tab @ ''write(writer, src.'' @ k @ '');'' @ nl)
                    (sorted_list_of_set (Field_name ` set (declared_fields (decls desc) n)))) @
        ''}'' @ nl @ nl)
      (struct_names (decls desc)))
   \<and> Cpp_generateStructs (CppGenerator_new desc) fmt =
     concat (map (\<lambda>n.
        ''class '' @ n @ '' {'' @ nl @ ''public:'' @ nl @
        tab @ n @ ''('' @ nl @
        join_with ('','' @ nl)
          (map (\<lambda>k. tab @ tab @
                  getFieldType (buildRegistry desc) (last_named (declared_fields (decls desc) n) k) @
                  '' '' @ k @ '' = '' @
                  Cpp_getDefaultValue (buildRegistry desc) fmt (last_named (declared_fields (decls desc) n) k))
               (sorted_list_of_set (Field_name ` set (declared_fields (decls desc) n)))) @
        nl @ tab @ '') {'' @ nl @
        concat (map (\<lambda>k. tab @ tab @ ''this->'' @ k @ '' = '' @ k @ '';'' @ nl)
                    (sorted_list_of_set (Field_name ` set (declared_fields (decls desc) n)))) @
        tab @ ''};'' @ nl @ nl @
        tab @ ''virtual ~'' @ n @ ''() {};'' @ nl @
        concat (map (\<lambda>k. tab @
                  getFieldType (buildRegistry desc) (last_named (declared_fields (decls desc) n) k) @
                  '' '' @ k @ '';'' @ nl)
                    (sorted_list_of_set (Field_name ` set (declared_fields (decls desc) n)))) @
        ''};'' @ nl @ nl)
      (struct_names (decls desc)))
   \<and> (\<forall>desc'. ns desc' = ns desc \<and> list_all2 fields_reordered (decls desc) (decls desc') \<longrightarrow>
         Cpp_generateStructSerializers (CppGenerator_new desc') =
         Cpp_generateStructSerializers (CppGenerator_new desc))
   \<and> Cpp_generateStructSerializers
        (CppGenerator_new (order_example [plain_field ''float'' ''b'', plain_field ''int32'' ''a''])) =
     ''template <> inline void read(MessageReader& reader, M& dst) {'' @ nl @
     tab @ ''read(reader, dst.a);'' @ nl @
     tab @ ''read(reader, dst.b);'' @ nl @
     ''}'' @ nl @ nl @
     ''template <> inline void write(MessageWriter& writer, const M& src) {'' @ nl @
     tab @ ''write(writer, src.a);'' @ nl @
     tab @ ''write(writer, src.b);'' @ nl @
     ''}'' @ nl @ nl
   \<and> Cpp_generateStructSerializers
        (CppGenerator_new (order_example [plain_field ''float'' ''b'', plain_field ''int32'' ''c''])) =
     ''template <> inline void read(MessageReader& reader, M& dst) {'' @ nl @
     tab @ ''read(reader, dst.b);'' @ nl @
     tab @ ''read(reader, dst.c);'' @ nl @
     ''}'' @ nl @ nl @
     ''template <> inline void write(MessageWriter& writer, const M& src) {'' @ nl @
     tab @ ''write(writer, src.b);'' @ nl @
     tab @ ''write(writer, src.c);'' @ nl @
     ''}'' @ nl @ nl"
proof -
  note a = generateStructSerializers_by_names [of desc, unfolded field_names_def]
  note b = generateStructs_by_names [of desc fmt, unfolded field_names_def]
  have c: "\<forall>desc'. ns desc' = ns desc \<and> list_all2 fields_reordered (decls desc) (decls desc') \<longrightarrow>
         Cpp_generateStructSerializers (CppGenerator_new desc') =
         Cpp_generateStructSerializers (CppGenerator_new desc)"
    by (intro allI impI) (erule conjE, rule serializers_reordered)
  have d: "Cpp_generateStructSerializers
        (CppGenerator_new (order_example [plain_field ''float'' ''b'', plain_field ''int32'' ''a''])) =
     ''template <> inline void read(MessageReader& reader, M& dst) {'' @ nl @
     tab @ ''read(reader, dst.a);'' @ nl @
     tab @ ''read(reader, dst.b);'' @ nl @
     ''}'' @ nl @ nl @
     ''template <> inline void write(MessageWriter& writer, const M& src) {'' @ nl @
     tab @ ''write(writer, src.a);'' @ nl @
     tab @ ''write(writer, src.b);'' @ nl @
     ''}'' @ nl @ nl"
    by code_simp
  have e: "Cpp_generateStructSerializers
        (CppGenerator_new (order_example [plain_field ''float'' ''b'', plain_field ''int32'' ''c''])) =
     ''template <> inline void read(MessageReader& reader, M& dst) {'' @ nl @
     tab @ ''read(reader, dst.b);'' @ nl @
     tab @ ''read(reader, dst.c);'' @ nl @
     ''}'' @ nl @ nl @
     ''template <> inline void write(MessageWriter& writer, const M& src) {'' @ nl @
     tab @ ''write(writer, src.b);'' @ nl @
     tab @ ''write(writer, src.c);'' @ nl @
     ''}'' @ nl @ nl"
    by code_simp
  show ?thesis by (intro conjI) (fact a, fact b, fact c, fact d, fact e)
qed

text \<open>
  The serializers of \<^verbatim>\<open>message M { float b; int32 a; }\<close> and of
  \<^verbatim>\<open>message M { int32 a; float b; }\<close> are the same text.
\<close>

theorem cpp_fields_sorted_by_name_witness:
  "ns (order_example [plain_field ''float'' ''b'', plain_field ''int32'' ''a'']) =
     ns (order_example [plain_field ''int32'' ''a'', plain_field ''float'' ''b''])
   \<and> list_all2 fields_reordered
        (decls (order_example [plain_field ''int32'' ''a'', plain_field ''float'' ''b'']))
        (decls (order_example [plain_field ''float'' ''b'', plain_field ''int32'' ''a'']))
   \<and> Cpp_generateStructSerializers
        (CppGenerator_new (order_example [plain_field ''float'' ''b'', plain_field ''int32'' ''a''])) =
     Cpp_generateStructSerializers
        (CppGenerator_new (order_example [plain_field ''int32'' ''a'', plain_field ''float'' ''b'']))"
proof -
  have n: "ns (order_example [plain_field ''float'' ''b'', plain_field ''int32'' ''a'']) =
     ns (order_example [plain_field ''int32'' ''a'', plain_field ''float'' ''b''])"
    by (simp add: order_example_def)
  have r: "list_all2 fields_reordered
        (decls (order_example [plain_field ''int32'' ''a'', plain_field ''float'' ''b'']))
        (decls (order_example [plain_field ''float'' ''b'', plain_field ''int32'' ''a'']))"
    by (simp add: order_example_def)
  note th = cpp_fields_sorted_by_name
    [where desc = "order_example [plain_field ''int32'' ''a'', plain_field ''float'' ''b'']"
       and fmt = no_doubles]
  note perm = th [THEN conjunct2, THEN conjunct2, THEN conjunct1, rule_format, OF conjI, OF n r]
  show ?thesis by (intro conjI) (fact n, fact r, fact perm)
qed


section \<open>Array specifiers\<close>

lemma digit_value_nonneg: "isdigit c \<Longrightarrow> 0 \<le> digit_value c"
proof -
  assume "isdigit c"
  then have "(48::nat) \<le> of_char c" by (simp add: isdigit_def less_eq_char_def)
  then have "(48::int) \<le> int (of_char c)" by linarith
  then show ?thesis by (simp add: digit_value_def of_nat_of_char)
qed

lemma foldl_dec_nonneg:
  "0 \<le> v \<Longrightarrow> \<forall>c\<in>set ds. isdigit c \<Longrightarrow> 0 \<le> foldl (\<lambda>v c. 10 * v + digit_value c) v ds"
proof (induction ds arbitrary: v)
  case Nil
  then show ?case by simp
next
  case (Cons c ds)
  then have "0 \<le> 10 * v + digit_value c" using digit_value_nonneg [of c] by simp
  with Cons show ?case by simp
qed

lemma dec_value_nonneg: "\<forall>c\<in>set ds. isdigit c \<Longrightarrow> 0 \<le> dec_value ds"
  unfolding dec_value_def by (rule foldl_dec_nonneg) simp_all

lemma takeWhile_full: "length (takeWhile P xs) = length xs \<Longrightarrow> \<forall>x\<in>set xs. P x"
proof -
  assume "length (takeWhile P xs) = length xs"
  then have "takeWhile P xs = xs" using takeWhile_eq_take [of P xs] by simp
  then show ?thesis by (simp add: takeWhile_eq_all_conv)
qed

lemma from_chars_ok:
  assumes "from_chars sv = (ptr, ec, len)" "ec = errc_ok" "ptr = length sv"
  shows "sv \<noteq> [] \<and> (\<forall>c\<in>set sv. isdigit c) \<and> dec_value sv \<le> SIZE_MAX \<and> len = nat (dec_value sv)"
proof -
  from assms have ne: "takeWhile isdigit sv \<noteq> []" and le: "\<not> dec_value (takeWhile isdigit sv) > SIZE_MAX"
    and len: "length (takeWhile isdigit sv) = length sv" and v: "len = nat (dec_value (takeWhile isdigit sv))"
    by (auto simp: from_chars_def Let_def split: if_splits)
  from len have all: "\<forall>c\<in>set sv. isdigit c" by (rule takeWhile_full)
  then have eq: "takeWhile isdigit sv = sv" by (simp add: takeWhile_eq_all_conv)
  from ne le v all show ?thesis unfolding eq by auto
qed

lemma parseOptionalArray_length:
  assumes "parseOptionalArray fname lx = Inr (Some (FieldArray (Some len)), lx')"
  shows "\<exists>lx1 lx2 t. match TokLBrack lx = Inr (True, lx1) \<and> peek 0 lx1 = Inr (t, lx2)
           \<and> kind t = TokNumber \<and> lexeme t \<noteq> [] \<and> (\<forall>c\<in>set (lexeme t). isdigit c)
           \<and> 0 \<le> dec_value (lexeme t) \<and> dec_value (lexeme t) \<le> SIZE_MAX
           \<and> len = nat (dec_value (lexeme t))"
proof -
  from assms obtain lx1 where m: "match TokLBrack lx = Inr (True, lx1)"
    by (auto simp: parseOptionalArray_def split: sum.splits bool.splits if_splits prod.splits)
  from assms m obtain t lx2 where p: "peek 0 lx1 = Inr (t, lx2)"
    by (auto simp: parseOptionalArray_def split: sum.splits if_splits prod.splits)
  note n = peek_then_next [OF p]
  from assms m p n have k: "kind t = TokNumber"
    by (auto simp: parseOptionalArray_def split: sum.splits if_splits prod.splits)
  from assms m p n k obtain ptr ec l where fc: "from_chars (lexeme t) = (ptr, ec, l)"
    and ok: "ec = errc_ok" "ptr = length (lexeme t)" and l: "l = len"
    by (auto simp: parseOptionalArray_def split: sum.splits if_splits prod.splits)
  from from_chars_ok [OF fc ok] l dec_value_nonneg [of "lexeme t"] m p k show ?thesis by blast
qed

lemma getFieldType_explicit:
  "getFieldType reg f =
     (case Field_array f of
        None \<Rightarrow> (case getType reg (Field_type f) of
                   Some meta \<Rightarrow> getContainer meta ''cpp'' | None \<Rightarrow> Field_type f)
      | Some a \<Rightarrow>
          (case array_length a of
             Some N \<Rightarrow> (case getType reg (Field_type f) of
                          Some meta \<Rightarrow> getContainer meta ''cpp'' | None \<Rightarrow> Field_type f) @
                       ''['' @ to_string N @ '']''
           | None \<Rightarrow> ''std::vector<'' @
                     (case getType reg (Field_type f) of
                        Some meta \<Rightarrow> getContainer meta ''cpp'' | None \<Rightarrow> Field_type f) @ ''>''))"
  by (simp add: getFieldType_def Let_def split: option.splits)

lemma erase_length_fields [simp]:
  "Field_type (erase_length f) = Field_type f"
  "Field_default_value (erase_length f) = Field_default_value f"
  "(Field_array (erase_length f) = None) = (Field_array f = None)"
  by (simp_all add: erase_length_def)

lemma py_erase [simp]:
  "isArray (erase_length f) = isArray f"
  "getPythonType reg (erase_length f) = getPythonType reg f"
  "Py_getDefaultValue reg fmt (erase_length f) = Py_getDefaultValue reg fmt f"
  by (simp_all add: isArray_def getPythonType_def Py_getDefaultValue_def cong: option.case_cong)

lemma py_ctor_body_erase [simp]: "Py_ctor_body reg k (erase_length f) = Py_ctor_body reg k f"
  unfolding Py_ctor_body_def py_erase erase_length_fields ..

lemma Py_struct_class_erase:
  "Py_struct_class reg fmt n (map (\<lambda>(k, f). (k, erase_length f)) flds) = Py_struct_class reg fmt n flds"
  unfolding Py_struct_class_def map_map comp_def split_def fst_conv snd_conv
    py_erase py_ctor_body_erase ..

lemma map_put_map_values:
  "map_put k (g v) (map (\<lambda>(k, v). (k, g v)) m) = map (\<lambda>(k, v). (k, g v)) (map_put k v m)"
  by (induction m) auto

lemma Field_name_erase [simp]: "Field_name (erase_length f) = Field_name f"
  by (simp add: erase_length_def)

lemma fields_map_erase: "fields_map (map erase_length fs) = erase_fields (fields_map fs)"
proof (induction fs rule: rev_induct)
  case Nil
  then show ?case by (simp add: fields_map_Nil erase_fields_def)
next
  case (snoc f fs)
  have "fields_map (map erase_length (fs @ [f])) =
        map_put (Field_name f) (erase_length f) (fields_map (map erase_length fs))"
    using fields_map_snoc [of "map erase_length fs" "erase_length f"] by simp
  also have "\<dots> = erase_fields (map_put (Field_name f) f (fields_map fs))"
    unfolding snoc.IH erase_fields_def by (rule map_put_map_values)
  finally show ?case by (simp add: fields_map_snoc)
qed

lemma digest_erase:
  "fold (\<lambda>(fname, field) content. content @ Field_type field @ fname) (erase_fields flds) name =
   fold (\<lambda>(fname, field) content. content @ Field_type field @ fname) flds name"
  by (induction flds arbitrary: name) (auto simp: erase_fields_def)

lemma registerStruct_erase:
  "registerStruct (erase_registry r) n (erase_fields flds) = erase_registry (registerStruct r n flds)"
  unfolding registerStruct_def registerType_def erase_registry_def digest_erase
  using map_put_map_values [of n erase_fields flds "structs r"] by simp

lemma registerMessage_erase:
  "registerMessage (erase_registry r) n (erase_fields flds) = erase_registry (registerMessage r n flds)"
proof -
  have "(erase_registry r)\<lparr>messages := messages (erase_registry r) @ [n]\<rparr> =
        erase_registry (r\<lparr>messages := messages r @ [n]\<rparr>)"
    by (simp add: erase_registry_def)
  then show ?thesis by (simp add: registerMessage_def registerStruct_erase)
qed

lemma visit_decl_erase: "visit_decl (erase_registry r) (erase_decl d) = erase_registry (visit_decl r d)"
proof (cases d)
  case (DStructure x)
  then show ?thesis by (simp add: fields_map_erase registerStruct_erase)
next
  case (DMessage x)
  then show ?thesis by (simp add: fields_map_erase registerMessage_erase)
qed (simp_all add: registerEnum_def registerType_def erase_registry_def)

lemma foldl_visit_erase:
  "foldl visit_decl (erase_registry r) (map erase_decl ds) = erase_registry (foldl visit_decl r ds)"
  by (induction ds arbitrary: r) (simp_all add: visit_decl_erase)

lemma buildRegistry_erase: "buildRegistry (erase_lengths desc) = erase_registry (buildRegistry desc)"
proof -
  let ?r = "registerBuiltinTypes TypeRegistry_new :: 'a TypeRegistry"
  have "structs ?r = []" by (simp add: TypeRegistry_new_def)
  then have "erase_registry ?r = ?r" by (simp add: erase_registry_def)
  then show ?thesis
    using foldl_visit_erase [of ?r "decls desc"] by (simp add: buildRegistry_def erase_lengths_def)
qed

lemma erase_registry_fields [simp]:
  "types (erase_registry r) = types r"
  "enums (erase_registry r) = enums r"
  "messages (erase_registry r) = messages r"
  "structs (erase_registry r) = map (\<lambda>(n, flds). (n, erase_fields flds)) (structs r)"
  by (simp_all add: erase_registry_def)

lemma Py_struct_class_types:
  assumes "types r' = types r"
  shows "Py_struct_class r' fmt n flds = Py_struct_class r fmt n flds"
proof -
  have g: "getType r' = getType r" by (rule ext) (simp add: getType_def assms)
  show ?thesis
    unfolding Py_struct_class_def Py_getDefaultValue_def Py_ctor_body_def getPythonType_def g ..
qed

lemma Py_generateStructs_erase:
  "Py_generateStructs (erase_registry r) fmt = Py_generateStructs r fmt"
proof -
  have "\<And>n flds. Py_struct_class (erase_registry r) fmt n (erase_fields flds) = Py_struct_class r fmt n flds"
    using Py_struct_class_erase [of r fmt] by (simp add: Py_struct_class_types [of "erase_registry r" r] erase_fields_def)
  then show ?thesis by (simp add: Py_generateStructs_def comp_def split_def)
qed

lemma py_sections_erase:
  "Py_generateImports (erase_registry r) = Py_generateImports r"
  "Py_generateEnums (erase_registry r) = Py_generateEnums r"
  "Py_generateExternalTypes (erase_registry r) = Py_generateExternalTypes r"
  "Py_generateMessages (erase_registry r) = Py_generateMessages r"
  by (simp_all add: Py_generateImports_def getSources_def Py_generateEnums_def
      Py_generateExternalTypes_def Py_generateMessages_def getHash_def getType_def)

lemma generate_python_erase: "generate_python fmt (erase_lengths desc) = generate_python fmt desc"
  unfolding generate_python_def Let_def buildRegistry_erase py_sections_erase Py_generateStructs_erase ..

lemma Py_generateStructs_by_names:
  "Py_generateStructs (buildRegistry desc) fmt =
     concat (map (\<lambda>n.
        ''class '' @ n @ ''(object):'' @ nl @
        ''    def __init__(self'' @
        concat (map (\<lambda>k. '','' @ nl @ ''        '' @ k @ '' = '' @
                  Py_getDefaultValue (buildRegistry desc) fmt (last_named (declared_fields (decls desc) n) k))
               (field_names (declared_fields (decls desc) n))) @
        ''):'' @ nl @
        concat (map (\<lambda>k. Py_ctor_body (buildRegistry desc) k (last_named (declared_fields (decls desc) n) k))
               (field_names (declared_fields (decls desc) n))) @
        ''        pass'' @ nl @ nl @
        ''    @staticmethod'' @ nl @
        ''    def read(reader):'' @ nl @
        ''        dst = '' @ n @ ''()'' @ nl @
        concat (map (\<lambda>k.
                  if Field_array (last_named (declared_fields (decls desc) n) k) \<noteq> None
                  then ''        dst.'' @ k @ '' = routio.readList('' @
                       getPythonType (buildRegistry desc) (last_named (declared_fields (decls desc) n) k) @
                       '', reader)'' @ nl
                  else ''        dst.'' @ k @ '' = routio.readType('' @
                       getPythonType (buildRegistry desc) (last_named (declared_fields (decls desc) n) k) @
                       '', reader)'' @ nl)
               (field_names (declared_fields (decls desc) n))) @
        ''        return dst'' @ nl @ nl @
        ''    @staticmethod'' @ nl @
        ''    def write(writer, obj):'' @ nl @
        concat (map (\<lambda>k.
                  if Field_array (last_named (declared_fields (decls desc) n) k) \<noteq> None
                  then ''        routio.writeList('' @
                       getPythonType (buildRegistry desc) (last_named (declared_fields (decls desc) n) k) @
                       '', writer, obj.'' @ k @ '')'' @ nl
                  else ''        routio.writeType('' @
                       getPythonType (buildRegistry desc) (last_named (declared_fields (decls desc) n) k) @
                       '', writer, obj.'' @ k @ '')'' @ nl)
               (field_names (declared_fields (decls desc) n))) @
        ''        pass'' @ nl @ nl @
        ''routio.registerType('' @ n @ '', '' @ n @ ''.read, '' @ n @ ''.write)'' @ nl @ nl)
      (struct_names (decls desc)))"
  unfolding Py_generateStructs_def structs_buildRegistry
  by (simp add: Py_struct_class_def isArray_def comp_def)

lemma Py_array_ctor:
  "Field_array f \<noteq> None \<Longrightarrow>
     Py_ctor_body reg k f =
       ''        if '' @ k @ '' is None:'' @ nl @
       ''            self.'' @ k @ '' = []'' @ nl @
       ''        else:'' @ nl @
       ''            self.'' @ k @ '' = '' @ k @ nl"
  by (simp add: Py_ctor_body_def isArray_def)

lemma getFieldType_cases:
  "getFieldType reg f =
     (case Field_array f of
        None \<Rightarrow> getFieldType reg (f\<lparr>Field_array := None\<rparr>)
      | Some a \<Rightarrow> (case array_length a of
          Some N \<Rightarrow> getFieldType reg (f\<lparr>Field_array := None\<rparr>) @ ''['' @ to_string N @ '']''
        | None \<Rightarrow> ''std::vector<'' @ getFieldType reg (f\<lparr>Field_array := None\<rparr>) @ ''>''))"
  by (simp add: getFieldType_def Let_def split: option.splits)


text \<open>
  C8 (as amended). For every description, in the emitted C++ classes a field with an array
  specifier of declared length \<open>N\<close> has the type \<open>T[N]\<close>, one with an array specifier without a
  length the type \<open>std::vector<T>\<close> and one without a specifier the type \<open>T\<close>, where \<open>T\<close> is the
  C++ container of the field type. In the emitted Python classes every field with an array
  specifier is initialised to a list and read and written with \<^verbatim>\<open>readList\<close> and \<^verbatim>\<open>writeList\<close>,
  every other field with \<^verbatim>\<open>readType\<close> and \<^verbatim>\<open>writeType\<close>, and the whole generated Python text is
  unchanged when the declared lengths are erased. A length that \<open>parseOptionalArray\<close> accepts is
  the value of a number token made of decimal digits only, within the range of \<^verbatim>\<open>size_t\<close>.
\<close>

theorem array_specifier_codegen:
  "Cpp_generateStructs (CppGenerator_new desc) fmt =
     concat (map (\<lambda>n.
        ''class '' @ n @ '' {'' @ nl @ ''public:'' @ nl @
        tab @ n @ ''('' @ nl @
        join_with ('','' @ nl)
          (map (\<lambda>k. tab @ tab @
                  (case Field_array (last_named (declared_fields (decls desc) n) k) of
                     None \<Rightarrow>
                       (case getType (buildRegistry desc)
                               (Field_type (last_named (declared_fields (decls desc) n) k)) of
                          Some meta \<Rightarrow> getContainer meta ''cpp''
                        | None \<Rightarrow> Field_type (last_named (declared_fields (decls desc) n) k))
                   | Some a \<Rightarrow>
                       (case array_length a of
                          Some N \<Rightarrow>
                            (case getType (buildRegistry desc)
                                    (Field_type (last_named (declared_fields (decls desc) n) k)) of
                               Some meta \<Rightarrow> getContainer meta ''cpp''
                             | None \<Rightarrow> Field_type (last_named (declared_fields (decls desc) n) k)) @
                            ''['' @ to_string N @ '']''
                        | None \<Rightarrow>
                            ''std::vector<'' @
                            (case getType (buildRegistry desc)
                                    (Field_type (last_named (declared_fields (decls desc) n) k)) of
                               Some meta \<Rightarrow> getContainer meta ''cpp''
                             | None \<Rightarrow> Field_type (last_named (declared_fields (decls desc) n) k)) @
                            ''>'')) @
                  '' '' @ k @ '' = '' @
                  Cpp_getDefaultValue (buildRegistry desc) fmt (last_named (declared_fields (decls desc) n) k))
               (sorted_list_of_set (Field_name ` set (declared_fields (decls desc) n)))) @
        nl @ tab @ '') {'' @ nl @
        concat (map (\<lambda>k. tab @ tab @ ''this->'' @ k @ '' = '' @ k @ '';'' @ nl)
                    (sorted_list_of_set (Field_name ` set (declared_fields (decls desc) n)))) @
        tab @ ''};'' @ nl @ nl @
        tab @ ''virtual ~'' @ n @ ''() {};'' @ nl @
        concat (map (\<lambda>k. tab @
                  (case Field_array (last_named (declared_fields (decls desc) n) k) of
                     None \<Rightarrow>
                       (case getType (buildRegistry desc)
                               (Field_type (last_named (declared_fields (decls desc) n) k)) of
                          Some meta \<Rightarrow> getContainer meta ''cpp''
                        | None \<Rightarrow> Field_type (last_named (declared_fields (decls desc) n) k))
                   | Some a \<Rightarrow>
                       (case array_length a of
                          Some N \<Rightarrow>
                            (case getType (buildRegistry desc)
                                    (Field_type (last_named (declared_fields (decls desc) n) k)) of
                               Some meta \<Rightarrow> getContainer meta ''cpp''
                             | None \<Rightarrow> Field_type (last_named (declared_fields (decls desc) n) k)) @
                            ''['' @ to_string N @ '']''
                        | None \<Rightarrow>
                            ''std::vector<'' @
                            (case getType (buildRegistry desc)
                                    (Field_type (last_named (declared_fields (decls desc) n) k)) of
                               Some meta \<Rightarrow> getContainer meta ''cpp''
                             | None \<Rightarrow> Field_type (last_named (declared_fields (decls desc) n) k)) @
                            ''>'')) @
                  '' '' @ k @ '';'' @ nl)
                    (sorted_list_of_set (Field_name ` set (declared_fields (decls desc) n)))) @
        ''};'' @ nl @ nl)
      (struct_names (decls desc)))
   \<and> Py_generateStructs (buildRegistry desc) fmt =
     concat (map (\<lambda>n.
        ''class '' @ n @ ''(object):'' @ nl @
        ''    def __init__(self'' @
        concat (map (\<lambda>k. '','' @ nl @ ''        '' @ k @ '' = '' @
                  Py_getDefaultValue (buildRegistry desc) fmt (last_named (declared_fields (decls desc) n) k))
               (sorted_list_of_set (Field_name ` set (declared_fields (decls desc) n)))) @
        ''):'' @ nl @
        concat (map (\<lambda>k. Py_ctor_body (buildRegistry desc) k (last_named (declared_fields (decls desc) n) k))
               (sorted_list_of_set (Field_name ` set (declared_fields (decls desc) n)))) @
        ''        pass'' @ nl @ nl @
        ''    @staticmethod'' @ nl @
        ''    def read(reader):'' @ nl @
        ''        dst = '' @ n @ ''()'' @ nl @
        concat (map (\<lambda>k.
                  if Field_array (last_named (declared_fields (decls desc) n) k) \<noteq> None
                  then ''        dst.'' @ k @ '' = routio.readList('' @
                       getPythonType (buildRegistry desc) (last_named (declared_fields (decls desc) n) k) @
                       '', reader)'' @ nl
                  else ''        dst.'' @ k @ '' = routio.readType('' @
                       getPythonType (buildRegistry desc) (last_named (declared_fields (decls desc) n) k) @
                       '', reader)'' @ nl)
               (sorted_list_of_set (Field_name ` set (declared_fields (decls desc) n)))) @
        ''        return dst'' @ nl @ nl @
        ''    @staticmethod'' @ nl @
        ''    def write(writer, obj):'' @ nl @
        concat (map (\<lambda>k.
                  if Field_array (last_named (declared_fields (decls desc) n) k) \<noteq> None
                  then ''        routio.writeList('' @
                       getPythonType (buildRegistry desc) (last_named (declared_fields (decls desc) n) k) @
                       '', writer, obj.'' @ k @ '')'' @ nl
                  else ''        routio.writeType('' @
                       getPythonType (buildRegistry desc) (last_named (declared_fields (decls desc) n) k) @
                       '', writer, obj.'' @ k @ '')'' @ nl)
               (sorted_list_of_set (Field_name ` set (declared_fields (decls desc) n)))) @
        ''        pass'' @ nl @ nl @
        ''routio.registerType('' @ n @ '', '' @ n @ ''.read, '' @ n @ ''.write)'' @ nl @ nl)
      (struct_names (decls desc)))
   \<and> Py_ctor_body reg k (f\<lparr>Field_array := Some a\<rparr>) =
       ''        if '' @ k @ '' is None:'' @ nl @
       ''            self.'' @ k @ '' = []'' @ nl @
       ''        else:'' @ nl @
       ''            self.'' @ k @ '' = '' @ k @ nl
   \<and> generate_python fmt (erase_lengths desc) = generate_python fmt desc
   \<and> Cpp_generateStructs (CppGenerator_new array_example) no_doubles =
       ''class S {'' @ nl @ ''public:'' @ nl @
       tab @ ''S('' @ nl @
       tab @ tab @ ''int32_t[3] a = 0,'' @ nl @
       tab @ tab @ ''std::vector<float> b = 0.0f,'' @ nl @
       tab @ tab @ ''bool c = false'' @ nl @
       tab @ '') {'' @ nl @
       tab @ tab @ ''this->a = a;'' @ nl @
       tab @ tab @ ''this->b = b;'' @ nl @
       tab @ tab @ ''this->c = c;'' @ nl @
       tab @ ''};'' @ nl @ nl @
       tab @ ''virtual ~S() {};'' @ nl @
       tab @ ''int32_t[3] a;'' @ nl @
       tab @ ''std::vector<float> b;'' @ nl @
       tab @ ''bool c;'' @ nl @
       ''};'' @ nl @ nl
   \<and> (\<forall>fname lx len lx'.
         parseOptionalArray fname lx = Inr (Some (FieldArray (Some len)), lx') \<longrightarrow>
         (\<exists>lx1 lx2 t. match TokLBrack lx = Inr (True, lx1) \<and> peek 0 lx1 = Inr (t, lx2)
            \<and> kind t = TokNumber \<and> lexeme t \<noteq> [] \<and> (\<forall>c\<in>set (lexeme t). isdigit c)
            \<and> 0 \<le> dec_value (lexeme t) \<and> dec_value (lexeme t) \<le> SIZE_MAX
            \<and> len = nat (dec_value (lexeme t))))"
proof -
  note a = generateStructs_by_names [of desc fmt, unfolded field_names_def getFieldType_explicit]
  note b = Py_generateStructs_by_names [of desc fmt, unfolded field_names_def]
  have c: "Py_ctor_body reg k (f\<lparr>Field_array := Some a\<rparr>) =
       ''        if '' @ k @ '' is None:'' @ nl @
       ''            self.'' @ k @ '' = []'' @ nl @
       ''        else:'' @ nl @
       ''            self.'' @ k @ '' = '' @ k @ nl"
    by (rule Py_array_ctor) simp
  note d = generate_python_erase [of fmt desc]
  have e: "Cpp_generateStructs (CppGenerator_new array_example) no_doubles =
       ''class S {'' @ nl @ ''public:'' @ nl @
       tab @ ''S('' @ nl @
       tab @ tab @ ''int32_t[3] a = 0,'' @ nl @
       tab @ tab @ ''std::vector<float> b = 0.0f,'' @ nl @
       tab @ tab @ ''bool c = false'' @ nl @
       tab @ '') {'' @ nl @
       tab @ tab @ ''this->a = a;'' @ nl @
       tab @ tab @ ''this->b = b;'' @ nl @
       tab @ tab @ ''this->c = c;'' @ nl @
       tab @ ''};'' @ nl @ nl @
       tab @ ''virtual ~S() {};'' @ nl @
       tab @ ''int32_t[3] a;'' @ nl @
       tab @ ''std::vector<float> b;'' @ nl @
       tab @ ''bool c;'' @ nl @
       ''};'' @ nl @ nl"
    by code_simp
  have p: "\<forall>fname lx len lx'.
         parseOptionalArray fname lx = Inr (Some (FieldArray (Some len)), lx') \<longrightarrow>
         (\<exists>lx1 lx2 t. match TokLBrack lx = Inr (True, lx1) \<and> peek 0 lx1 = Inr (t, lx2)
            \<and> kind t = TokNumber \<and> lexeme t \<noteq> [] \<and> (\<forall>c\<in>set (lexeme t). isdigit c)
            \<and> 0 \<le> dec_value (lexeme t) \<and> dec_value (lexeme t) \<le> SIZE_MAX
            \<and> len = nat (dec_value (lexeme t)))"
    by (intro allI impI) (rule parseOptionalArray_length)
  show ?thesis by (intro conjI) (fact a, fact b, fact c, fact d, fact e, fact p)
qed

text \<open>The specifier \<^verbatim>\<open>[12]\<close> is accepted with length 12.\<close>

theorem array_specifier_codegen_witness:
  "parseOptionalArray ''f.msg'' (Lexer_new ''[12] x'') =
     Inr (Some (FieldArray (Some 12)),
          \<lparr>lx_input = ''[12] x'', lx_i = 4, lx_line = 1, lx_col = 5, lx_lookahead = []\<rparr>)
   \<and> (\<exists>lx1 lx2 t. match TokLBrack (Lexer_new ''[12] x'') = Inr (True, lx1) \<and> peek 0 lx1 = Inr (t, lx2)
            \<and> kind t = TokNumber \<and> lexeme t \<noteq> [] \<and> (\<forall>c\<in>set (lexeme t). isdigit c)
            \<and> 0 \<le> dec_value (lexeme t) \<and> dec_value (lexeme t) \<le> SIZE_MAX
            \<and> 12 = nat (dec_value (lexeme t)))"
proof -
  have h: "parseOptionalArray ''f.msg'' (Lexer_new ''[12] x'') =
     Inr (Some (FieldArray (Some 12)),
          \<lparr>lx_input = ''[12] x'', lx_i = 4, lx_line = 1, lx_col = 5, lx_lookahead = []\<rparr>)"
    by code_simp
  note th = array_specifier_codegen [where desc = array_example and fmt = no_doubles
      and reg = empty_registry and k = "''a''" and f = "plain_field ''int32'' ''a''"
      and a = "FieldArray (Some 3)"]
  note p = th [THEN conjunct2, THEN conjunct2, THEN conjunct2, THEN conjunct2, THEN conjunct2,
      rule_format, OF h]
  show ?thesis by (intro conjI) (fact h, fact p)
qed

text \<open>
  C8 as stated fails for the Python emitter: the code emitted for \<^verbatim>\<open>int32[3] a\<close> is the
  code emitted for \<^verbatim>\<open>int32[] a\<close>.
\<close>

theorem array_length_python_counterexample:
  "Py_generateStructs (buildRegistry \<lparr>ns = None, decls =
       [DStructure \<lparr>Structure_name = ''S'', Structure_fields = [array_field ''int32'' (Some 3) ''a'']\<rparr>]\<rparr>)
     no_doubles =
   Py_generateStructs (buildRegistry \<lparr>ns = None, decls =
       [DStructure \<lparr>Structure_name = ''S'', Structure_fields = [array_field ''int32'' None ''a'']\<rparr>]\<rparr>)
     no_doubles"
  by code_simp

section \<open>String literals\<close>

text \<open>
  C6. On the literal \<^verbatim>\<open>"a\qb"\<close> the parser's \<open>unquote\<close> returns \<open>aqb\<close>: the character after
  the backslash is kept, the backslash is not. The five known escapes are decoded. The same
  through \<open>parse\<close>: \<^verbatim>\<open>import "a\qb";\<close> imports \<open>aqb\<close>.
\<close>

theorem unquote_unknown_escape_drops_backslash:
  "unquote [CHR 0x22, CHR ''a'', CHR 0x5C, CHR ''q'', CHR ''b'', CHR 0x22]
     (string_token [CHR 0x22, CHR ''a'', CHR 0x5C, CHR ''q'', CHR ''b'', CHR 0x22]) ''f.msg'' = Inr ''aqb''
   \<and> unquote [CHR 0x22, CHR 0x5C, CHR ''n'', CHR 0x5C, CHR ''r'', CHR 0x5C, CHR ''t'', CHR 0x5C, CHR 0x5C,
              CHR 0x5C, CHR 0x22, CHR 0x22]
     (string_token []) ''f.msg'' = Inr [CHR 0x0A, CHR 0x0D, CHR 0x09, CHR 0x5C, CHR 0x22]
   \<and> parse no_strtod [CHR ''i'', CHR ''m'', CHR ''p'', CHR ''o'', CHR ''r'', CHR ''t'', CHR '' '',
                    CHR 0x22, CHR ''a'', CHR 0x5C, CHR ''q'', CHR ''b'', CHR 0x22, CHR '';''] ''f.msg'' =
     Inr \<lparr>ns = None, decls = [DImport ''aqb'']\<rparr>"
  by code_simp

theorem unquote_unknown_escape_drops_backslash_witness:
  "projr (unquote [CHR 0x22, CHR ''a'', CHR 0x5C, CHR ''q'', CHR ''b'', CHR 0x22]
     (string_token [CHR 0x22, CHR ''a'', CHR 0x5C, CHR ''q'', CHR ''b'', CHR 0x22]) ''f.msg'') = ''aqb''"
  using unquote_unknown_escape_drops_backslash [THEN conjunct1] by simp

text \<open>
  C7. Parsing \<^verbatim>\<open>import "abc\<close> under the file name \<^verbatim>\<open>foo.msg\<close> raises a \<open>DescriptionError\<close> at the
  line and column of the opening quote, but its file is the fixed text \<^verbatim>\<open><input>\<close>: the lexer
  never sees the file name given to \<open>parse\<close>. A line break inside the literal ends it the same
  way. An error raised by the parser proper (\<^verbatim>\<open>import abc;\<close>) does carry \<^verbatim>\<open>foo.msg\<close>.
\<close>

theorem parse_unterminated_literal_names_placeholder_file:
  "parse no_strtod [CHR ''i'', CHR ''m'', CHR ''p'', CHR ''o'', CHR ''r'', CHR ''t'', CHR '' '',
                    CHR 0x22, CHR ''a'', CHR ''b'', CHR ''c''] ''foo.msg'' =
     Inl \<lparr>err_file = ''<input>'', err_line = 1, err_column = 8,
          err_message = ''Unterminated string literal''\<rparr>
   \<and> parse no_strtod [CHR ''i'', CHR ''m'', CHR ''p'', CHR ''o'', CHR ''r'', CHR ''t'', CHR '' '',
                    CHR 0x22, CHR ''a'', CHR 0x0A, CHR ''b'', CHR 0x22, CHR '';''] ''foo.msg'' =
     Inl \<lparr>err_file = ''<input>'', err_line = 1, err_column = 8,
          err_message = ''Unterminated string literal''\<rparr>
   \<and> parse no_strtod ''import abc;'' ''foo.msg'' =
     Inl \<lparr>err_file = ''foo.msg'', err_line = 1, err_column = 8,
          err_message = ''Expected quoted filename after '' @ quoted ''import''\<rparr>"
  by code_simp

theorem parse_unterminated_literal_names_placeholder_file_witness:
  "err_file (projl (parse no_strtod [CHR ''i'', CHR ''m'', CHR ''p'', CHR ''o'', CHR ''r'', CHR ''t'',
      CHR '' '', CHR 0x22, CHR ''a'', CHR ''b'', CHR ''c''] ''foo.msg'')) = ''<input>''"
  using parse_unterminated_literal_names_placeholder_file [THEN conjunct1] by simp

section \<open>The driver\<close>

lemma find_last_of_bound:
  assumes "find_last_of s cs = Some pos"
  shows "pos < length s"
proof -
  from assms obtain rest where "filter (\<lambda>i. s ! i \<in> set cs) (rev [0..<length s]) = pos # rest"
    by (auto simp: find_last_of_def split: list.splits)
  then have "pos \<in> set (filter (\<lambda>i. s ! i \<in> set cs) (rev [0..<length s]))" by simp
  then show ?thesis by simp
qed

lemma find_last_of_None: "find_last_of s cs = None \<longleftrightarrow> (\<forall>c\<in>set s. c \<notin> set cs)"
proof -
  have "find_last_of s cs = None \<longleftrightarrow> filter (\<lambda>i. s ! i \<in> set cs) (rev [0..<length s]) = []"
    by (simp add: find_last_of_def split: list.splits)
  also have "\<dots> \<longleftrightarrow> (\<forall>i<length s. s ! i \<notin> set cs)"
    by (auto simp: filter_empty_conv)
  also have "\<dots> \<longleftrightarrow> (\<forall>c\<in>set s. c \<notin> set cs)"
    by (simp add: all_set_conv_all_nth)
  finally show ?thesis .
qed

lemma find_last_of_snoc:
  "find_last_of (s @ [c]) cs =
     (if c \<in> set cs then Some (length s) else find_last_of s cs)"
proof -
  have "filter (\<lambda>i. (s @ [c]) ! i \<in> set cs) (rev [0..<length s]) =
        filter (\<lambda>i. s ! i \<in> set cs) (rev [0..<length s])"
    by (rule filter_cong) (auto simp: nth_append)
  then show ?thesis by (simp add: find_last_of_def)
qed

lemma drop_after_last:
  "(case find_last_of s cs of Some pos \<Rightarrow> drop (pos + 1) s | None \<Rightarrow> s) =
     rev (takeWhile (\<lambda>c. c \<notin> set cs) (rev s))"
proof (induction s rule: rev_induct)
  case Nil
  then show ?case by (simp add: find_last_of_def)
next
  case (snoc c s)
  show ?case
  proof (cases "c \<in> set cs")
    case True
    then show ?thesis by (simp add: find_last_of_snoc)
  next
    case False
    show ?thesis
    proof (cases "find_last_of s cs")
      case None
      with snoc False show ?thesis by (simp add: find_last_of_snoc)
    next
      case (Some pos)
      then have "pos < length s" by (rule find_last_of_bound)
      with snoc False Some show ?thesis by (simp add: find_last_of_snoc)
    qed
  qed
qed

lemma take_before_last:
  "(case find_last_of s [c] of Some pos \<Rightarrow> take pos s | None \<Rightarrow> s) =
     (if c \<in> set s then rev (tl (dropWhile (\<lambda>x. x \<noteq> c) (rev s))) else s)"
proof (induction s rule: rev_induct)
  case Nil
  then show ?case by (simp add: find_last_of_def)
next
  case (snoc x s)
  show ?case
  proof (cases "x = c")
    case True
    then show ?thesis by (simp add: find_last_of_snoc)
  next
    case False
    show ?thesis
    proof (cases "find_last_of s [c]")
      case None
      then have "c \<notin> set s" by (auto simp: find_last_of_None)
      with False None show ?thesis by (simp add: find_last_of_snoc)
    next
      case (Some pos)
      then have pos: "pos < length s" by (rule find_last_of_bound)
      from Some have "find_last_of s [c] \<noteq> None" by simp
      then have cin: "c \<in> set s" by (auto simp: find_last_of_None)
      with snoc Some have ih: "take pos s = rev (tl (dropWhile (\<lambda>x. x \<noteq> c) (rev s)))" by simp
      from cin have ne: "dropWhile (\<lambda>x. x \<noteq> c) (rev s) \<noteq> []" by (simp add: dropWhile_eq_Nil_conv)
      from False Some pos cin ih ne show ?thesis by (simp add: find_last_of_snoc)
    qed
  qed
qed

lemma output_filename_basename:
  "output_filename path lang = strip_extension (file_part path) @ extension lang"
proof -
  have p: "(\<lambda>c. c \<notin> set [CHR ''/'', CHR 0x5C]) = (\<lambda>c. c \<noteq> CHR ''/'' \<and> c \<noteq> CHR 0x5C)"
    by auto
  have a: "(case find_last_of path [CHR ''/'', CHR 0x5C] of
              Some pos \<Rightarrow> drop (pos + 1) path | None \<Rightarrow> path) = file_part path"
    by (simp only: drop_after_last p file_part_def)
  show ?thesis
    unfolding output_filename_def Let_def a
    using take_before_last [of "file_part path" "CHR ''.''"]
    by (simp add: strip_extension_def extension_def split: OutputLanguage.splits)
qed

lemma output_filename_nonempty: "output_filename f lang \<noteq> []"
  by (simp add: output_filename_basename extension_def split: OutputLanguage.splits)

lemma generate_code_other_file:
  "g \<noteq> output_filename f lang \<Longrightarrow> w_files (generate_code be env d f lang w) g = w_files w g"
  by (simp add: generate_code_def Let_def)

lemma generate_code_written:
  assumes "f \<noteq> []" "env_writable env (output_filename f lang)"
  shows "generate_code be env d f lang w =
           w\<lparr>w_files := (w_files w)(output_filename f lang \<mapsto> emitted be lang d (output_filename f lang)),
             w_written := w_written w @ [(output_filename f lang, emitted be lang d (output_filename f lang))]\<rparr>"
  using assms output_filename_nonempty [of f lang]
  by (simp add: generate_code_def Let_def emitted_def)

lemma generate_code_stdin:
  "generate_code be env d [] lang w = w\<lparr>w_stdout := w_stdout w @ emitted be lang d []\<rparr>"
  by (simp add: generate_code_def Let_def emitted_def)

lemma read_files_append:
  "read_files be env lang (pre @ rest) w =
     (if fst (read_files be env lang pre w) = 0
      then read_files be env lang rest (snd (read_files be env lang pre w))
      else read_files be env lang pre w)"
  by (induction pre arbitrary: w) (auto split: option.splits sum.splits)

lemma read_files_exit: "fst (read_files be env lang files w) = 0 \<or> fst (read_files be env lang files w) = 1"
  by (induction files arbitrary: w) (auto split: option.splits sum.splits)

lemma read_files_parse_failure:
  assumes "fst (read_files be env lang pre w) = 0"
    and "open_input (snd (read_files be env lang pre w)) f = Some inp"
    and "be_parse be inp f = Inl e"
  shows "read_files be env lang (pre @ f # post) w =
           (1, (snd (read_files be env lang pre w))
                 \<lparr>w_stderr := w_stderr (snd (read_files be env lang pre w)) @ what e @ nl\<rparr>)"
  using assms by (simp add: read_files_append)

lemma read_files_nonzero:
  "fst (read_files be env lang files w) \<noteq> 0 \<Longrightarrow>
     \<exists>pre f post. files = pre @ f # post \<and> fst (read_files be env lang pre w) = 0 \<and>
       (open_input (snd (read_files be env lang pre w)) f = None \<or>
        (\<exists>inp e. open_input (snd (read_files be env lang pre w)) f = Some inp \<and> be_parse be inp f = Inl e))"
proof (induction files arbitrary: w)
  case Nil
  then show ?case by simp
next
  case (Cons f rest)
  show ?case
  proof (cases "open_input w f")
    case None
    then have "f # rest = [] @ f # rest \<and> fst (read_files be env lang [] w) = 0 \<and>
       open_input (snd (read_files be env lang [] w)) f = None" by simp
    then show ?thesis by blast
  next
    case (Some inp)
    show ?thesis
    proof (cases "be_parse be inp f")
      case (Inl e)
      with Some have "f # rest = [] @ f # rest \<and> fst (read_files be env lang [] w) = 0 \<and>
         open_input (snd (read_files be env lang [] w)) f = Some inp \<and> be_parse be inp f = Inl e"
        by simp
      then show ?thesis by blast
    next
      case (Inr d)
      let ?w1 = "generate_code be env d f lang w"
      from Cons.prems Some Inr have "fst (read_files be env lang rest ?w1) \<noteq> 0" by simp
      from Cons.IH [OF this] obtain pre g post where
        r: "rest = pre @ g # post" and z: "fst (read_files be env lang pre ?w1) = 0" and
        bad: "open_input (snd (read_files be env lang pre ?w1)) g = None \<or>
          (\<exists>inp e. open_input (snd (read_files be env lang pre ?w1)) g = Some inp \<and> be_parse be inp g = Inl e)"
        by blast
      have step: "read_files be env lang (f # pre) w = read_files be env lang pre ?w1"
        using Some Inr by simp
      from r have "f # rest = (f # pre) @ g # post" by simp
      with z bad step show ?thesis by metis
    qed
  qed
qed

lemma read_files_all_parse:
  assumes "\<forall>f\<in>set files. output_filename f lang \<notin> S" "set files \<subseteq> S"
    and "\<forall>g\<in>S. w_files w g = w_files w0 g"
    and "all_parse be w0 files"
  shows "fst (read_files be env lang files w) = 0"
  using assms
proof (induction files arbitrary: w)
  case Nil
  then show ?case by simp
next
  case (Cons f rest)
  from Cons.prems(4) obtain inp d where o: "open_input w0 f = Some inp" and p: "be_parse be inp f = Inr d"
    by (auto simp: all_parse_def)
  from Cons.prems(2,3) o have o': "open_input w f = Some inp"
    by (auto simp: open_input_def split: if_splits)
  let ?w1 = "generate_code be env d f lang w"
  have agree: "\<forall>g\<in>S. w_files ?w1 g = w_files w0 g"
  proof
    fix g assume g: "g \<in> S"
    with Cons.prems(1) have "g \<noteq> output_filename f lang" by auto
    then have "w_files ?w1 g = w_files w g" by (rule generate_code_other_file)
    with Cons.prems(3) g show "w_files ?w1 g = w_files w0 g" by simp
  qed
  have "fst (read_files be env lang rest ?w1) = 0"
    using Cons.prems agree by (intro Cons.IH) (auto simp: all_parse_def)
  with o' p show ?case by simp
qed

lemma read_files_written:
  assumes "\<forall>f\<in>set files. output_filename f lang \<notin> S" "set files \<subseteq> S"
    and "\<forall>g\<in>S. w_files w g = w_files w0 g"
    and "all_parse be w0 files"
    and "\<forall>f\<in>set files. env_writable env (output_filename f lang)"
  shows "w_written (snd (read_files be env lang files w)) =
           w_written w @ map (\<lambda>f. (output_filename f lang,
                                    emitted be lang (parsed be w0 f) (output_filename f lang))) files
         \<and> w_stdout (snd (read_files be env lang files w)) = w_stdout w
         \<and> w_stderr (snd (read_files be env lang files w)) = w_stderr w"
  using assms
proof (induction files arbitrary: w)
  case Nil
  then show ?case by simp
next
  case (Cons f rest)
  from Cons.prems(4) obtain inp d where o: "open_input w0 f = Some inp" and p: "be_parse be inp f = Inr d"
    by (auto simp: all_parse_def)
  from o have ne: "f \<noteq> []" by (auto simp: open_input_def split: if_splits)
  from Cons.prems(2,3) o have o': "open_input w f = Some inp"
    by (auto simp: open_input_def split: if_splits)
  from o p have pd: "parsed be w0 f = d" by (simp add: parsed_def)
  let ?w1 = "generate_code be env d f lang w"
  from Cons.prems(5) have wr: "env_writable env (output_filename f lang)" by simp
  note gc = generate_code_written [OF ne wr, of be d w]
  have agree: "\<forall>g\<in>S. w_files ?w1 g = w_files w0 g"
  proof
    fix g assume g: "g \<in> S"
    with Cons.prems(1) have "g \<noteq> output_filename f lang" by auto
    then have "w_files ?w1 g = w_files w g" by (rule generate_code_other_file)
    with Cons.prems(3) g show "w_files ?w1 g = w_files w0 g" by simp
  qed
  have ih: "w_written (snd (read_files be env lang rest ?w1)) =
           w_written ?w1 @ map (\<lambda>f. (output_filename f lang,
                                    emitted be lang (parsed be w0 f) (output_filename f lang))) rest
         \<and> w_stdout (snd (read_files be env lang rest ?w1)) = w_stdout ?w1
         \<and> w_stderr (snd (read_files be env lang rest ?w1)) = w_stderr ?w1"
    using Cons.prems agree by (intro Cons.IH) (auto simp: all_parse_def)
  have step: "read_files be env lang (f # rest) w = read_files be env lang rest ?w1"
    using o' p by simp
  show ?case unfolding step using ih pd by (simp add: gc)
qed

lemma main_files:
  assumes "env_sync_with_stdio env" "parse_args argv [] CPP = Inr (files, lang)" "length files > 1"
  shows "main be env argv w = read_files be env lang files w"
  using assms by (simp add: main_def)

lemma main_stdin:
  assumes "env_sync_with_stdio env" "parse_args argv [] CPP = Inr (files, lang)" "length files \<le> 1"
  shows "main be env argv w =
           (case be_parse be (env_stdin env) ''input'' of
              Inl e \<Rightarrow> (1, w\<lparr>w_stderr := w_stderr w @ what e @ nl\<rparr>)
            | Inr d \<Rightarrow> (0, w\<lparr>w_stdout := w_stdout w @ emitted be lang d []\<rparr>))"
  using assms by (simp add: main_def generate_code_stdin split: sum.splits)

text \<open>
  With exactly one input file argument the test \<^verbatim>\<open>input_files.size() > 1\<close> fails and the
  driver takes the standard-input branch: the named file is not read.
\<close>

theorem main_single_file_reads_stdin:
  assumes "env_sync_with_stdio env" "parse_args argv [] CPP = Inr ([f], lang)"
  shows "main be env argv w =
           (case be_parse be (env_stdin env) ''input'' of
              Inl e \<Rightarrow> (1, w\<lparr>w_stderr := w_stderr w @ what e @ nl\<rparr>)
            | Inr d \<Rightarrow> (0, w\<lparr>w_stdout := w_stdout w @ emitted be lang d []\<rparr>))"
proof -
  have "length [f] \<le> 1" by simp
  from main_stdin [OF assms this] show ?thesis .
qed

text \<open>
  C5 (as amended). With no input file argument the driver parses standard input and writes
  the generated code to standard output. With two or more input file arguments that all open
  and parse, none of whose output names is an input name and whose outputs can be opened, it
  reads each file in order and writes the code generated for it to \<open><basename>.cpp\<close> or
  \<open><basename>.py\<close>, where the base name is the input's file name without its directory and
  without its last extension: a path in the current directory.
\<close>

theorem main_input_output:
  assumes "env_sync_with_stdio env" and "parse_args argv [] CPP = Inr (files, lang)"
  shows "(files = [] \<longrightarrow>
           main be env argv w =
             (case be_parse be (env_stdin env) ''input'' of
                Inl e \<Rightarrow> (1, w\<lparr>w_stderr := w_stderr w @ what e @ nl\<rparr>)
              | Inr d \<Rightarrow> (0, w\<lparr>w_stdout := w_stdout w @ emitted be lang d []\<rparr>)))
       \<and> (length files > 1 \<and> no_clobber files lang \<and> all_parse be w files \<and>
            (\<forall>f\<in>set files. env_writable env (output_filename f lang)) \<longrightarrow>
           fst (main be env argv w) = 0 \<and>
           w_stdout (snd (main be env argv w)) = w_stdout w \<and>
           w_written (snd (main be env argv w)) =
             w_written w @ map (\<lambda>f. (output_filename f lang,
                                      emitted be lang (parsed be w f) (output_filename f lang))) files)
       \<and> (\<forall>path. output_filename path lang = strip_extension (file_part path) @ extension lang)"
proof (intro conjI impI allI)
  assume "files = []"
  then have "length files \<le> 1" by simp
  from main_stdin [OF assms this]
  show "main be env argv w =
             (case be_parse be (env_stdin env) ''input'' of
                Inl e \<Rightarrow> (1, w\<lparr>w_stderr := w_stderr w @ what e @ nl\<rparr>)
              | Inr d \<Rightarrow> (0, w\<lparr>w_stdout := w_stdout w @ emitted be lang d []\<rparr>))" .
next
  assume h: "length files > 1 \<and> no_clobber files lang \<and> all_parse be w files \<and>
            (\<forall>f\<in>set files. env_writable env (output_filename f lang))"
  then have m: "main be env argv w = read_files be env lang files w"
    using assms by (simp add: main_files)
  from h have nc: "\<forall>f\<in>set files. output_filename f lang \<notin> set files"
    by (simp add: no_clobber_def)
  have sub: "set files \<subseteq> set files" by simp
  have ag: "\<forall>g\<in>set files. w_files w g = w_files w g" by simp
  from h have ap: "all_parse be w files" and wr: "\<forall>f\<in>set files. env_writable env (output_filename f lang)"
    by simp_all
  show "fst (main be env argv w) = 0"
    unfolding m by (rule read_files_all_parse [OF nc sub ag ap])
  note wrt = read_files_written [OF nc sub ag ap wr]
  show "w_stdout (snd (main be env argv w)) = w_stdout w"
    unfolding m using wrt by simp
  show "w_written (snd (main be env argv w)) =
             w_written w @ map (\<lambda>f. (output_filename f lang,
                                      emitted be lang (parsed be w f) (output_filename f lang))) files"
    unfolding m using wrt by simp
next
  fix path
  show "output_filename path lang = strip_extension (file_part path) @ extension lang"
    by (rule output_filename_basename)
qed

text \<open>
  C9. When the parse of an input fails the driver returns 1 and its final state is the state
  after the earlier inputs with only the error message appended, so nothing is generated for
  that input or a later one; it returns a non-zero code in file mode only if some input, when
  the driver reaches it, fails to open or to parse; and when every input parses it returns 0.
\<close>

theorem main_exit_code:
  assumes "env_sync_with_stdio env" and "parse_args argv [] CPP = Inr (files, lang)"
  shows "(length files \<le> 1 \<longrightarrow>
           (\<forall>e. be_parse be (env_stdin env) ''input'' = Inl e \<longrightarrow>
                main be env argv w = (1, w\<lparr>w_stderr := w_stderr w @ what e @ nl\<rparr>))
         \<and> (\<forall>d. be_parse be (env_stdin env) ''input'' = Inr d \<longrightarrow> fst (main be env argv w) = 0))
       \<and> (length files > 1 \<longrightarrow>
           (\<forall>pre f post inp e.
               files = pre @ f # post \<and> fst (read_files be env lang pre w) = 0 \<and>
               open_input (snd (read_files be env lang pre w)) f = Some inp \<and>
               be_parse be inp f = Inl e \<longrightarrow>
               main be env argv w =
                 (1, (snd (read_files be env lang pre w))
                       \<lparr>w_stderr := w_stderr (snd (read_files be env lang pre w)) @ what e @ nl\<rparr>))
         \<and> (fst (main be env argv w) \<noteq> 0 \<longrightarrow>
               (\<exists>pre f post. files = pre @ f # post \<and> fst (read_files be env lang pre w) = 0 \<and>
                  (open_input (snd (read_files be env lang pre w)) f = None \<or>
                   (\<exists>inp e. open_input (snd (read_files be env lang pre w)) f = Some inp \<and>
                            be_parse be inp f = Inl e))))
         \<and> (no_clobber files lang \<and> all_parse be w files \<longrightarrow> fst (main be env argv w) = 0))"
proof (intro conjI impI allI)
  fix e assume "length files \<le> 1" "be_parse be (env_stdin env) ''input'' = Inl e"
  then show "main be env argv w = (1, w\<lparr>w_stderr := w_stderr w @ what e @ nl\<rparr>)"
    using main_stdin [OF assms, of be w] by simp
next
  fix d assume "length files \<le> 1" "be_parse be (env_stdin env) ''input'' = Inr d"
  then show "fst (main be env argv w) = 0"
    using main_stdin [OF assms, of be w] by simp
next
  fix pre f post inp e
  assume len: "length files > 1"
    and h: "files = pre @ f # post \<and> fst (read_files be env lang pre w) = 0 \<and>
               open_input (snd (read_files be env lang pre w)) f = Some inp \<and>
               be_parse be inp f = Inl e"
  from main_files [OF assms len] have m: "main be env argv w = read_files be env lang files w" .
  from h have z: "fst (read_files be env lang pre w) = 0"
    and o: "open_input (snd (read_files be env lang pre w)) f = Some inp"
    and p: "be_parse be inp f = Inl e" and fs: "files = pre @ f # post" by simp_all
  show "main be env argv w =
                 (1, (snd (read_files be env lang pre w))
                       \<lparr>w_stderr := w_stderr (snd (read_files be env lang pre w)) @ what e @ nl\<rparr>)"
    unfolding m fs by (rule read_files_parse_failure [OF z o p])
next
  assume len: "length files > 1" and nz: "fst (main be env argv w) \<noteq> 0"
  from main_files [OF assms len] have m: "main be env argv w = read_files be env lang files w" .
  from nz show "\<exists>pre f post. files = pre @ f # post \<and> fst (read_files be env lang pre w) = 0 \<and>
                  (open_input (snd (read_files be env lang pre w)) f = None \<or>
                   (\<exists>inp e. open_input (snd (read_files be env lang pre w)) f = Some inp \<and>
                            be_parse be inp f = Inl e))"
    unfolding m by (rule read_files_nonzero)
next
  assume len: "length files > 1" and h: "no_clobber files lang \<and> all_parse be w files"
  from main_files [OF assms len] have m: "main be env argv w = read_files be env lang files w" .
  from h have nc: "\<forall>f\<in>set files. output_filename f lang \<notin> set files"
    by (simp add: no_clobber_def)
  have sub: "set files \<subseteq> set files" by simp
  have ag: "\<forall>g\<in>set files. w_files w g = w_files w g" by simp
  from h have ap: "all_parse be w files" by simp
  show "fst (main be env argv w) = 0"
    unfolding m by (rule read_files_all_parse [OF nc sub ag ap])
qed

lemma demo_sync: "env_sync_with_stdio demo_env"
  by (simp add: demo_env_def)

lemma demo_args_py: "parse_args [''--language'', ''python'', ''d/a.msg'', ''b.msg''] [] CPP =
    Inr ([''d/a.msg'', ''b.msg''], Python)"
  by simp

lemma demo_args_none: "parse_args [] [] CPP = Inr ([], CPP)"
  by simp

lemma demo_parse_stdin: "be_parse demo_backend (env_stdin demo_env) ''input'' = Inr demo_desc_stdin"
  by code_simp

lemma demo_parse_a: "be_parse demo_backend ''message A { int32 x; }'' ''d/a.msg'' = Inr demo_desc_a"
  by code_simp

lemma demo_parse_b: "be_parse demo_backend ''structure B { float[] y; }'' ''b.msg'' = Inr demo_desc_b"
  by code_simp

lemma demo_parse_bad: "be_parse demo_backend ''message { }'' ''bad.msg'' =
    Inl \<lparr>err_file = ''bad.msg'', err_line = 1, err_column = 9, err_message = ''Expected message name''\<rparr>"
  by code_simp

lemma demo_open:
  "open_input demo_world ''d/a.msg'' = Some ''message A { int32 x; }''"
  "open_input demo_world ''b.msg'' = Some ''structure B { float[] y; }''"
  "open_input demo_world ''bad.msg'' = Some ''message { }''"
  by (simp_all add: open_input_def demo_world_def)

lemma demo_all_parse: "all_parse demo_backend demo_world [''d/a.msg'', ''b.msg'']"
  using demo_parse_a demo_parse_b by (simp add: all_parse_def demo_open)

lemma demo_no_clobber: "no_clobber [''d/a.msg'', ''b.msg''] Python"
  by code_simp

lemma demo_emitted:
  "emitted demo_backend CPP d out = generate_cpp no_doubles d out"
  "emitted demo_backend Python d out = generate_python no_doubles d"
  by (simp_all add: emitted_def demo_backend_def routio_backend_def)

text \<open>
  The amended C5 on the concrete file system: standard input with no argument, and two
  files written to \<^verbatim>\<open>a.py\<close> and \<^verbatim>\<open>b.py\<close>.
\<close>

theorem main_input_output_witness:
  "main demo_backend demo_env [] demo_world =
     (0, demo_world\<lparr>w_stdout := generate_cpp no_doubles demo_desc_stdin []\<rparr>)
   \<and> fst (main demo_backend demo_env [''--language'', ''python'', ''d/a.msg'', ''b.msg''] demo_world) = 0
   \<and> w_written (snd (main demo_backend demo_env [''--language'', ''python'', ''d/a.msg'', ''b.msg''] demo_world)) =
       [(''a.py'', generate_python no_doubles demo_desc_a), (''b.py'', generate_python no_doubles demo_desc_b)]"
proof -
  note a = main_input_output [OF demo_sync demo_args_none, of demo_backend demo_world]
  have w0: "w_stdout demo_world = []" "w_written demo_world = []" by (simp_all add: demo_world_def)
  have a1: "main demo_backend demo_env [] demo_world =
     (0, demo_world\<lparr>w_stdout := generate_cpp no_doubles demo_desc_stdin []\<rparr>)"
    using a [THEN conjunct1] by (simp add: demo_parse_stdin demo_emitted w0)
  note b = main_input_output [OF demo_sync demo_args_py, of demo_backend demo_world]
  have h: "length [''d/a.msg'', ''b.msg''] > 1 \<and> no_clobber [''d/a.msg'', ''b.msg''] Python \<and>
           all_parse demo_backend demo_world [''d/a.msg'', ''b.msg''] \<and>
           (\<forall>f\<in>set [''d/a.msg'', ''b.msg'']. env_writable demo_env (output_filename f Python))"
    using demo_all_parse demo_no_clobber by (simp add: demo_env_def)
  note b2 = b [THEN conjunct2, THEN conjunct1, rule_format, OF h]
  have o1: "output_filename ''d/a.msg'' Python = ''a.py''" by code_simp
  have o2: "output_filename ''b.msg'' Python = ''b.py''" by code_simp
  have p1: "parsed demo_backend demo_world ''d/a.msg'' = demo_desc_a"
    by (simp add: parsed_def demo_open demo_parse_a)
  have p2: "parsed demo_backend demo_world ''b.msg'' = demo_desc_b"
    by (simp add: parsed_def demo_open demo_parse_b)
  from b2 have b3: "w_written (snd (main demo_backend demo_env [''--language'', ''python'', ''d/a.msg'', ''b.msg''] demo_world)) =
       [(''a.py'', generate_python no_doubles demo_desc_a), (''b.py'', generate_python no_doubles demo_desc_b)]"
    by (simp add: o1 o2 p1 p2 w0 demo_emitted)
  from b2 have b4: "fst (main demo_backend demo_env [''--language'', ''python'', ''d/a.msg'', ''b.msg''] demo_world) = 0"
    by simp
  show ?thesis by (intro conjI) (fact a1, fact b4, fact b3)
qed

text \<open>
  C5 as stated fails: for the input \<^verbatim>\<open>d/a.msg\<close> the output is written to \<^verbatim>\<open>a.cpp\<close>, not to
  \<^verbatim>\<open>d/a.cpp\<close> next to the input.
\<close>

theorem main_output_not_next_to_input_counterexample:
  "w_written (snd (main demo_backend demo_env [''d/a.msg'', ''b.msg''] demo_world)) =
       [(''a.cpp'', generate_cpp no_doubles demo_desc_a ''a.cpp''),
        (''b.cpp'', generate_cpp no_doubles demo_desc_b ''b.cpp'')]
   \<and> next_to_input ''d/a.msg'' CPP = ''d/a.cpp''"
  by code_simp

text \<open>
  A single file argument is not read: the driver compiles standard input to standard output
  and writes no file, although \<^verbatim>\<open>bad.msg\<close> does not parse.
\<close>

theorem main_single_file_example:
  "fst (main demo_backend demo_env [''bad.msg''] demo_world) = 0
   \<and> w_stdout (snd (main demo_backend demo_env [''bad.msg''] demo_world)) = generate_cpp no_doubles demo_desc_stdin []
   \<and> w_written (snd (main demo_backend demo_env [''bad.msg''] demo_world)) = []"
  by code_simp

lemma demo_args_bad: "parse_args [''b.msg'', ''bad.msg'', ''d/a.msg''] [] CPP =
    Inr ([''b.msg'', ''bad.msg'', ''d/a.msg''], CPP)"
  by simp

text \<open>
  C9 on the concrete file system: the second of three files fails to parse, so the exit code
  is 1, the error is reported, and only the first file has an output.
\<close>

theorem main_exit_code_witness:
  "fst (main demo_backend demo_env [''b.msg'', ''bad.msg'', ''d/a.msg''] demo_world) = 1
   \<and> w_stderr (snd (main demo_backend demo_env [''b.msg'', ''bad.msg'', ''d/a.msg''] demo_world)) =
       ''bad.msg (line: 1, col: 9): Expected message name'' @ nl
   \<and> w_written (snd (main demo_backend demo_env [''b.msg'', ''bad.msg'', ''d/a.msg''] demo_world)) =
       [(''b.cpp'', generate_cpp no_doubles demo_desc_b ''b.cpp'')]
   \<and> fst (main demo_backend demo_env [''--language'', ''python'', ''d/a.msg'', ''b.msg''] demo_world) = 0
   \<and> fst (main demo_backend demo_env [] demo_world) = 0"
proof -
  note a = main_exit_code [OF demo_sync demo_args_bad, of demo_backend demo_world]
  have len: "length [''b.msg'', ''bad.msg'', ''d/a.msg''] > 1" by simp
  have h1: "[''b.msg'', ''bad.msg'', ''d/a.msg''] = [''b.msg''] @ ''bad.msg'' # [''d/a.msg'']" by simp
  have h2: "fst (read_files demo_backend demo_env CPP [''b.msg''] demo_world) = 0" by code_simp
  have h3: "open_input (snd (read_files demo_backend demo_env CPP [''b.msg''] demo_world)) ''bad.msg'' =
      Some ''message { }''"
    by code_simp
  from h1 h2 h3 demo_parse_bad have h:
    "[''b.msg'', ''bad.msg'', ''d/a.msg''] = [''b.msg''] @ ''bad.msg'' # [''d/a.msg''] \<and>
      fst (read_files demo_backend demo_env CPP [''b.msg''] demo_world) = 0 \<and>
      open_input (snd (read_files demo_backend demo_env CPP [''b.msg''] demo_world)) ''bad.msg'' =
        Some ''message { }'' \<and>
      be_parse demo_backend ''message { }'' ''bad.msg'' =
        Inl \<lparr>err_file = ''bad.msg'', err_line = 1, err_column = 9,
             err_message = ''Expected message name''\<rparr>"
    by (intro conjI)
  note a1 = a [THEN conjunct2, rule_format, OF len, THEN conjunct1, rule_format, OF h]
  have wh: "what \<lparr>err_file = ''bad.msg'', err_line = 1, err_column = 9,
             err_message = ''Expected message name''\<rparr> =
      ''bad.msg (line: 1, col: 9): Expected message name''"
    by code_simp
  have e0: "w_stderr (snd (read_files demo_backend demo_env CPP [''b.msg''] demo_world)) = []"
    by code_simp
  have w0: "w_written (snd (read_files demo_backend demo_env CPP [''b.msg''] demo_world)) =
      [(''b.cpp'', generate_cpp no_doubles demo_desc_b ''b.cpp'')]"
    by code_simp
  have r1: "fst (main demo_backend demo_env [''b.msg'', ''bad.msg'', ''d/a.msg''] demo_world) = 1"
    by (simp only: a1 fst_conv)
  have r1b: "w_stderr (snd (main demo_backend demo_env [''b.msg'', ''bad.msg'', ''d/a.msg''] demo_world)) =
       ''bad.msg (line: 1, col: 9): Expected message name'' @ nl"
    by (simp add: a1 e0 wh del: read_files.simps)
  have r1c: "w_written (snd (main demo_backend demo_env [''b.msg'', ''bad.msg'', ''d/a.msg''] demo_world)) =
       [(''b.cpp'', generate_cpp no_doubles demo_desc_b ''b.cpp'')]"
    by (simp add: a1 w0 del: read_files.simps)
  note b = main_exit_code [OF demo_sync demo_args_py, of demo_backend demo_world]
  have len2: "length [''d/a.msg'', ''b.msg''] > 1" by simp
  have h2: "no_clobber [''d/a.msg'', ''b.msg''] Python \<and>
           all_parse demo_backend demo_world [''d/a.msg'', ''b.msg'']"
    using demo_all_parse demo_no_clobber by simp
  note r2 = b [THEN conjunct2, rule_format, OF len2, THEN conjunct2, THEN conjunct2, rule_format, OF h2]
  note c = main_exit_code [OF demo_sync demo_args_none, of demo_backend demo_world]
  have len3: "length ([] :: string list) \<le> 1" by simp
  note r3 = c [THEN conjunct1, rule_format, OF len3, THEN conjunct2, rule_format, OF demo_parse_stdin]
  from r1 r1b r1c r2 r3 show ?thesis by (intro conjI)
qed
end
